theory Spec2Isabelle
  imports Main "HOL-Library.Sublist" "HOL-Library.Word"
begin

section \<open>Data model (log.hpp)\<close>

text \<open>The enumerations of log.hpp. Both \<open>LogLevel\<close> and \<open>LogFormat\<close> have a member
  \<open>Unknown\<close>, so every constructor carries the name of its enumeration, as the C++
  scoped names \<open>LogLevel::Trace\<close>, \<open>LogFormat::Apache\<close> do.\<close>

datatype LogLevel =
    LogLevel_Unknown
  | LogLevel_Trace
  | LogLevel_Debug
  | LogLevel_Info
  | LogLevel_Warning
  | LogLevel_Error
  | LogLevel_Fatal
  | LogLevel_Critical

datatype LogFormat =
    LogFormat_Unknown
  | LogFormat_Apache
  | LogFormat_ApacheError
  | LogFormat_Syslog
  | LogFormat_WindowsEvent
  | LogFormat_IIS
  | LogFormat_Log4j
  | LogFormat_JSON
  | LogFormat_Custom

text \<open>\<open>struct LogEntry\<close>. Offsets and the line number are unsigned machine integers that
  only count positions of a buffer of at most 50 MiB, so they are natural numbers here;
  \<open>httpStatus\<close> is a C \<open>int\<close>.\<close>

record LogEntry =
  lineStart :: nat
  lineEnd :: nat
  lineNumber :: nat
  timestamp :: string
  level :: LogLevel
  source :: string
  message :: string
  ipAddress :: string
  httpMethod :: string
  url :: string
  httpStatus :: int
  responseSize :: int
  userAgent :: string
  referer :: string

text \<open>The constructor \<open>LogEntry()\<close>: numbers are zero, the level is \<open>Unknown\<close>, every
  string is empty.\<close>

definition LogEntry_new :: LogEntry where
  "LogEntry_new =
     \<lparr> lineStart = 0, lineEnd = 0, lineNumber = 0, timestamp = [],
       level = LogLevel_Unknown, source = [], message = [], ipAddress = [],
       httpMethod = [], url = [], httpStatus = 0, responseSize = 0,
       userAgent = [], referer = [] \<rparr>"

text \<open>\<open>struct LogStatistics\<close>: the counters are \<open>uint32\<close>, so they are 32-bit words and
  \<open>+\<close> wraps.\<close>

record LogStatistics =
  totalLines :: "32 word"
  errorCount :: "32 word"
  warningCount :: "32 word"
  infoCount :: "32 word"
  debugCount :: "32 word"
  traceCount :: "32 word"
  fatalCount :: "32 word"
  unknownCount :: "32 word"
  http2xxCount :: "32 word"
  http3xxCount :: "32 word"
  http4xxCount :: "32 word"
  http5xxCount :: "32 word"
  firstTimestamp :: string
  lastTimestamp :: string

definition LogStatistics_new :: LogStatistics where
  "LogStatistics_new =
     \<lparr> totalLines = 0, errorCount = 0, warningCount = 0, infoCount = 0,
       debugCount = 0, traceCount = 0, fatalCount = 0, unknownCount = 0,
       http2xxCount = 0, http3xxCount = 0, http4xxCount = 0, http5xxCount = 0,
       firstTimestamp = [], lastTimestamp = [] \<rparr>"

section \<open>The string primitives the parsers use\<close>

text \<open>\<open>std::string_view::find\<close>: the first index at or after \<open>pos\<close> where the needle
  starts, \<open>None\<close> for \<open>npos\<close>. \<open>find_at\<close> searches a suffix of the haystack.\<close>

fun find_at :: "string \<Rightarrow> string \<Rightarrow> nat option" where
  "find_at needle [] = (if needle = [] then Some 0 else None)"
| "find_at needle (c # cs) =
     (if prefix needle (c # cs) then Some 0 else map_option Suc (find_at needle cs))"

definition sv_find :: "string \<Rightarrow> string \<Rightarrow> nat \<Rightarrow> nat option" where
  "sv_find s needle pos =
     (if length s < pos then None
      else map_option (\<lambda>i. pos + i) (find_at needle (drop pos s)))"

text \<open>The overload of \<open>find\<close> that takes one character.\<close>

definition sv_find_ch :: "string \<Rightarrow> char \<Rightarrow> nat \<Rightarrow> nat option" where
  "sv_find_ch s c pos = sv_find s [c] pos"

text \<open>\<open>s.find(needle) != npos\<close>.\<close>

definition sv_contains :: "string \<Rightarrow> string \<Rightarrow> bool" where
  "sv_contains s needle = (sv_find s needle 0 \<noteq> None)"

text \<open>\<open>substr(pos, n)\<close> and \<open>substr(pos)\<close>, at the call sites of this file always with
  \<open>pos \<le> size\<close> (the only case in which C++ does not throw).\<close>

definition substr :: "string \<Rightarrow> nat \<Rightarrow> nat \<Rightarrow> string" where
  "substr s pos n = take n (drop pos s)"

definition substr_from :: "string \<Rightarrow> nat \<Rightarrow> string" where
  "substr_from s pos = drop pos s"

text \<open>Subtraction of two \<open>size_t\<close> values (64 bits): it wraps when the result would be
  negative.\<close>

definition size_t_sub :: "nat \<Rightarrow> nat \<Rightarrow> nat" where
  "size_t_sub a b = unat ((of_nat a :: 64 word) - of_nat b)"

text \<open>\<open>std::toupper\<close> on an \<open>unsigned char\<close> in the C locale: the letters a to z go to
  A to Z, every other byte is unchanged.\<close>

definition toupper :: "char \<Rightarrow> char" where
  "toupper c =
     (case map_of (zip ''abcdefghijklmnopqrstuvwxyz'' ''ABCDEFGHIJKLMNOPQRSTUVWXYZ'') c of
        Some u \<Rightarrow> u
      | None \<Rightarrow> c)"

definition to_upper :: "string \<Rightarrow> string" where
  "to_upper s = map toupper s"

section \<open>LOGFile::DetectLogFormat\<close>

definition DetectLogFormat :: "string \<Rightarrow> LogFormat" where
  "DetectLogFormat content =
     (let sampleEnd = min (length content) 4096;
          sample = substr content 0 sampleEnd
      in
      if sv_contains sample '' - - ['' \<and>
         (sv_contains sample [CHR 0x22, CHR '' '', CHR ''2'', CHR ''0'', CHR ''0'', CHR '' ''] \<or>
          sv_contains sample [CHR 0x22, CHR '' '', CHR ''4'', CHR ''0'', CHR ''4'', CHR '' ''] \<or>
          sv_contains sample [CHR 0x22, CHR '' '', CHR ''5'', CHR ''0'', CHR ''0'', CHR '' ''] \<or>
          sv_contains sample ''GET '' \<or>
          sv_contains sample ''POST '')
      then LogFormat_Apache
      else if sv_contains sample ''[error]'' \<or>
              sv_contains sample ''[warn]'' \<or>
              sv_contains sample ''[notice]'' \<or>
              sv_contains sample ''[crit]''
      then LogFormat_ApacheError
      else
        let hasSyslogMonth =
              (sv_contains sample ''Jan '' \<or> sv_contains sample ''Feb '' \<or>
               sv_contains sample ''Mar '' \<or> sv_contains sample ''Apr '' \<or>
               sv_contains sample ''May '' \<or> sv_contains sample ''Jun '' \<or>
               sv_contains sample ''Jul '' \<or> sv_contains sample ''Aug '' \<or>
               sv_contains sample ''Sep '' \<or> sv_contains sample ''Oct '' \<or>
               sv_contains sample ''Nov '' \<or> sv_contains sample ''Dec '')
        in
        if hasSyslogMonth \<and> sv_contains sample '']: ''
        then LogFormat_Syslog
        else if (sv_contains sample '' INFO '' \<or>
                 sv_contains sample '' DEBUG '' \<or>
                 sv_contains sample '' ERROR '' \<or>
                 sv_contains sample '' WARN '' \<or>
                 sv_contains sample ''[INFO]'' \<or>
                 sv_contains sample ''[DEBUG]'' \<or>
                 sv_contains sample ''[ERROR]'' \<or>
                 sv_contains sample ''[WARN]'') \<and>
                sv_contains sample '' - ''
        then LogFormat_Log4j
        else if sv_contains sample [CHR ''{'', CHR 0x22] \<and>
                (sv_contains sample ([CHR 0x22] @ ''timestamp'' @ [CHR 0x22]) \<or>
                 sv_contains sample ([CHR 0x22] @ ''level'' @ [CHR 0x22]) \<or>
                 sv_contains sample ([CHR 0x22] @ ''message'' @ [CHR 0x22]))
        then LogFormat_JSON
        else LogFormat_Custom)"

section \<open>LOGFile::ParseLogLevel\<close>

definition ParseLogLevel :: "string \<Rightarrow> LogLevel" where
  "ParseLogLevel levelStr =
     (let upper = to_upper levelStr in
      if upper = ''TRACE'' \<or> upper = ''TRC'' then LogLevel_Trace
      else if upper = ''DEBUG'' \<or> upper = ''DBG'' \<or> upper = ''DEBU'' then LogLevel_Debug
      else if upper = ''INFO'' \<or> upper = ''INF'' \<or> upper = ''INFORMATION'' \<or> upper = ''NOTICE''
        then LogLevel_Info
      else if upper = ''WARN'' \<or> upper = ''WARNING'' \<or> upper = ''WRN'' then LogLevel_Warning
      else if upper = ''ERROR'' \<or> upper = ''ERR'' \<or> upper = ''ERRO'' then LogLevel_Error
      else if upper = ''FATAL'' \<or> upper = ''FTL'' \<or> upper = ''CRIT'' \<or> upper = ''CRITICAL''
        then LogLevel_Fatal
      else LogLevel_Unknown)"

section \<open>The line loop shared by the four parsers\<close>

text \<open>Each of \<open>ParseApacheLog\<close>, \<open>ParseSyslog\<close>, \<open>ParseLog4j\<close> and \<open>ParseGenericLog\<close>
  runs the same loop over the lines of \<open>content\<close> and differs only in what it does with
  a non-empty line. \<open>find_line_end\<close> is \<open>content.find('\n', pos)\<close> with \<open>npos\<close> replaced by
  \<open>content.size()\<close>; \<open>trim_cr\<close> drops one trailing carriage return.\<close>

definition find_line_end :: "string \<Rightarrow> nat \<Rightarrow> nat" where
  "find_line_end content pos =
     (case sv_find_ch content (CHR 0x0A) pos of
        None \<Rightarrow> length content
      | Some found \<Rightarrow> found)"

definition trim_cr :: "string \<Rightarrow> string" where
  "trim_cr line =
     (if line \<noteq> [] \<and> last line = CHR 0x0D then substr line 0 (length line - 1) else line)"

lemma find_at_bound: "find_at needle s = Some i \<Longrightarrow> i + length needle \<le> length s"
  by (induction s arbitrary: i) (auto split: if_splits dest: prefix_length_le)

lemma sv_find_bounds:
  "sv_find s needle pos = Some i \<Longrightarrow> pos \<le> i \<and> i + length needle \<le> length s"
  by (auto simp: sv_find_def split: if_splits dest!: find_at_bound)

lemma find_line_end_bounds:
  "pos \<le> length content \<Longrightarrow>
   pos \<le> find_line_end content pos \<and> find_line_end content pos \<le> length content"
  by (auto simp: find_line_end_def sv_find_ch_def split: option.splits dest!: sv_find_bounds)

function parse_lines ::
  "(string \<Rightarrow> LogEntry \<Rightarrow> LogEntry) \<Rightarrow> string \<Rightarrow> nat \<Rightarrow> nat \<Rightarrow> LogEntry list \<Rightarrow> LogEntry list"
where
  "parse_lines body content pos lineNum entries =
     (if pos < length content then
        parse_lines body content (find_line_end content pos + 1) (lineNum + 1)
          (let line = trim_cr (substr content pos (find_line_end content pos - pos))
           in if line \<noteq> [] then
                entries @ [body line
                  (LogEntry_new\<lparr> lineStart := pos, lineEnd := find_line_end content pos,
                     lineNumber := lineNum \<rparr>)]
              else entries)
      else entries)"
  by pat_completeness auto
termination
proof (relation "measure (\<lambda>(body, content, pos, lineNum, entries). length content - pos)")
  show "wf (measure (\<lambda>(body, content, pos, lineNum, entries). length content - pos))"
    by simp
next
  fix body :: "string \<Rightarrow> LogEntry \<Rightarrow> LogEntry"
  fix content :: string and pos lineNum :: nat and entries :: "LogEntry list"
  assume "pos < length content"
  moreover from this have "pos \<le> find_line_end content pos"
    using find_line_end_bounds [of pos content] by simp
  ultimately show
    "((body, content, find_line_end content pos + 1, lineNum + 1,
       (let line = trim_cr (substr content pos (find_line_end content pos - pos))
        in if line \<noteq> [] then
             entries @ [body line
               (LogEntry_new\<lparr> lineStart := pos, lineEnd := find_line_end content pos,
                  lineNumber := lineNum \<rparr>)]
           else entries)),
      (body, content, pos, lineNum, entries))
     \<in> measure (\<lambda>(body, content, pos, lineNum, entries). length content - pos)"
    by simp
qed

declare parse_lines.simps [simp del]

section \<open>LOGFile::ParseApacheLog\<close>

text \<open>\<open>find_first_of\<close>: the first index of a character of the given set.\<close>

fun find_first_of :: "string \<Rightarrow> string \<Rightarrow> nat option" where
  "find_first_of [] chars = None"
| "find_first_of (c # cs) chars =
     (if c \<in> set chars then Some 0 else map_option Suc (find_first_of cs chars))"

text \<open>\<open>std::atoi\<close> at a position that holds a digit: the decimal value of the run of
  digits that starts there. The run ends at the latest at the end of the line: the
  character after a line is a carriage return or a line feed (after the last line of a
  buffer that does not end in one, the model takes the byte beyond the buffer to be no
  digit). C leaves \<open>atoi\<close> undefined when the value does not fit an \<open>int\<close>; the model
  is the mathematical value, which is what \<open>atoi\<close> returns up to 2147483647.\<close>

definition isdigit :: "char \<Rightarrow> bool" where
  "isdigit c = (c \<in> set ''0123456789'')"

definition digit_value :: "char \<Rightarrow> int" where
  "digit_value c = int (of_char c) - 48"

definition atoi :: "string \<Rightarrow> int" where
  "atoi s = foldl (\<lambda>acc c. acc * 10 + digit_value c) 0 (takeWhile isdigit s)"

text \<open>The body of \<open>if (!line.empty())\<close> after the three offsets are stored.\<close>

definition ParseApacheLine :: "string \<Rightarrow> LogEntry \<Rightarrow> LogEntry" where
  "ParseApacheLine line entry =
     (case sv_find_ch line CHR '' '' 0 of
        None \<Rightarrow> entry
      | Some ipEnd \<Rightarrow>
          let entry1 = entry\<lparr> ipAddress := substr line 0 ipEnd \<rparr>;
              tsStart = sv_find_ch line CHR ''['' 0;
              tsEnd = sv_find_ch line CHR '']'' 0;
              entry2 =
                (case (tsStart, tsEnd) of
                   (Some ts, Some te) \<Rightarrow>
                     entry1\<lparr> timestamp :=
                       substr line (ts + 1) (size_t_sub (size_t_sub te ts) 1) \<rparr>
                 | _ \<Rightarrow> entry1);
              entry3 =
                (case sv_find_ch line (CHR 0x22) 0 of
                   None \<Rightarrow> entry2
                 | Some reqStart \<Rightarrow>
                     (case sv_find_ch line (CHR 0x22) (reqStart + 1) of
                        None \<Rightarrow> entry2
                      | Some reqEnd \<Rightarrow>
                          let request = substr line (reqStart + 1) (reqEnd - reqStart - 1);
                              entry4 =
                                (case sv_find_ch request CHR '' '' 0 of
                                   None \<Rightarrow> entry2
                                 | Some methodEnd \<Rightarrow>
                                     let entry5 = entry2\<lparr> httpMethod := substr request 0 methodEnd \<rparr>
                                     in (case sv_find_ch request CHR '' '' (methodEnd + 1) of
                                           None \<Rightarrow> entry5
                                         | Some urlEnd \<Rightarrow>
                                             entry5\<lparr> url :=
                                               substr request (methodEnd + 1)
                                                 (urlEnd - methodEnd - 1) \<rparr>));
                              afterRequest = substr_from line (reqEnd + 1)
                          in (case find_first_of afterRequest ''0123456789'' of
                                None \<Rightarrow> entry4
                              | Some numStart \<Rightarrow>
                                  let status = atoi (substr_from afterRequest numStart)
                                  in entry4\<lparr> httpStatus := status,
                                       level :=
                                         (if status \<ge> 500 then LogLevel_Error
                                          else if status \<ge> 400 then LogLevel_Warning
                                          else LogLevel_Info) \<rparr>)))
          in entry3\<lparr> message := line \<rparr>)"

text \<open>The parsers append to \<open>entries\<close>, a member of the object: it is passed in and
  returned.\<close>

definition ParseApacheLog :: "string \<Rightarrow> LogEntry list \<Rightarrow> LogEntry list" where
  "ParseApacheLog content entries = parse_lines ParseApacheLine content 0 1 entries"

section \<open>LOGFile::ParseSyslog\<close>

definition ParseSyslogLine :: "string \<Rightarrow> LogEntry \<Rightarrow> LogEntry" where
  "ParseSyslogLine line entry =
     (let entry1 = entry\<lparr> message := line \<rparr>;
          entry2 =
            (if length line \<ge> 15 then entry1\<lparr> timestamp := substr line 0 15 \<rparr> else entry1);
          entry3 =
            (case sv_find line '': '' 0 of
               None \<Rightarrow> entry2
             | Some colonPos \<Rightarrow>
                 if colonPos > 15 then
                   let sourcePart = substr line 16 (colonPos - 16);
                       entry4 =
                         (case sv_find_ch sourcePart CHR '' '' 0 of
                            None \<Rightarrow> entry2
                          | Some spacePos \<Rightarrow>
                              entry2\<lparr> source := substr_from sourcePart (spacePos + 1) \<rparr>)
                   in entry4\<lparr> message := substr_from line (colonPos + 2) \<rparr>
                 else entry2);
          upperMsg = to_upper (message entry3)
      in entry3\<lparr> level :=
           (if sv_contains upperMsg ''ERROR'' \<or> sv_contains upperMsg ''FAIL'' then LogLevel_Error
            else if sv_contains upperMsg ''WARN'' then LogLevel_Warning
            else if sv_contains upperMsg ''DEBUG'' then LogLevel_Debug
            else LogLevel_Info) \<rparr>)"

definition ParseSyslog :: "string \<Rightarrow> LogEntry list \<Rightarrow> LogEntry list" where
  "ParseSyslog content entries = parse_lines ParseSyslogLine content 0 1 entries"

section \<open>LOGFile::ParseLog4j\<close>

text \<open>The two \<open>while\<close> loops that trim the logger name: the first moves \<open>sourceStart\<close>
  right over spaces and opening brackets, the second moves \<open>sourceEnd\<close> left over spaces
  and closing brackets.\<close>

function skip_source_start :: "string \<Rightarrow> nat \<Rightarrow> nat \<Rightarrow> nat" where
  "skip_source_start remaining msgStart sourceStart =
     (if sourceStart < msgStart \<and>
         (remaining ! sourceStart = CHR '' '' \<or> remaining ! sourceStart = CHR ''['')
      then skip_source_start remaining msgStart (sourceStart + 1)
      else sourceStart)"
  by pat_completeness auto
termination
  by (relation "measure (\<lambda>(remaining, msgStart, sourceStart). msgStart - sourceStart)") auto

declare skip_source_start.simps [simp del]

function trim_source_end :: "string \<Rightarrow> nat \<Rightarrow> nat \<Rightarrow> nat" where
  "trim_source_end remaining sourceStart sourceEnd =
     (if sourceEnd > sourceStart \<and>
         (remaining ! (sourceEnd - 1) = CHR '' '' \<or> remaining ! (sourceEnd - 1) = CHR '']'')
      then trim_source_end remaining sourceStart (sourceEnd - 1)
      else sourceEnd)"
  by pat_completeness auto
termination
  by (relation "measure (\<lambda>(remaining, sourceStart, sourceEnd). sourceEnd)") auto

declare trim_source_end.simps [simp del]

text \<open>What the loop over \<open>levels\<close> does once \<open>lvl\<close> is found at \<open>lvlPos\<close>, before its
  \<open>break\<close>.\<close>

definition Log4j_found :: "string \<Rightarrow> string \<Rightarrow> nat \<Rightarrow> LogEntry \<Rightarrow> LogEntry" where
  "Log4j_found remaining lvl lvlPos entry =
     (let entry1 = entry\<lparr> level := ParseLogLevel lvl \<rparr> in
      case sv_find remaining '' - '' lvlPos of
        Some msgStart \<Rightarrow>
          let sourceStart = skip_source_start remaining msgStart (lvlPos + length lvl);
              sourceEnd = trim_source_end remaining sourceStart msgStart;
              entry2 =
                (if sourceEnd > sourceStart then
                   entry1\<lparr> source := substr remaining sourceStart (sourceEnd - sourceStart) \<rparr>
                 else entry1)
          in entry2\<lparr> message := substr_from remaining (msgStart + 3) \<rparr>
      | None \<Rightarrow> entry1\<lparr> message := substr_from remaining (lvlPos + length lvl) \<rparr>)"

text \<open>The \<open>for\<close> loop over the level names, first hit within the first 20 characters
  wins.\<close>

fun Log4j_levels :: "string list \<Rightarrow> string \<Rightarrow> LogEntry \<Rightarrow> LogEntry" where
  "Log4j_levels [] remaining entry = entry"
| "Log4j_levels (lvl # rest) remaining entry =
     (case sv_find remaining lvl 0 of
        Some lvlPos \<Rightarrow>
          if lvlPos < 20 then Log4j_found remaining lvl lvlPos entry
          else Log4j_levels rest remaining entry
      | None \<Rightarrow> Log4j_levels rest remaining entry)"

definition ParseLog4jLine :: "string \<Rightarrow> LogEntry \<Rightarrow> LogEntry" where
  "ParseLog4jLine line entry =
     (let entry1 = entry\<lparr> level := LogLevel_Unknown \<rparr>;
          isoLike =
            (length line \<ge> 19 \<and>
             (line ! 4 = CHR ''-'' \<or> line ! 4 = CHR ''/'') \<and>
             (line ! 7 = CHR ''-'' \<or> line ! 7 = CHR ''/''));
          timestampEnd =
            (if isoLike then
               (if length line > 23 \<and> (line ! 19 = CHR ''.'' \<or> line ! 19 = CHR '','')
                then 23 else 19)
             else 0);
          entry2 =
            (if isoLike then entry1\<lparr> timestamp := substr line 0 timestampEnd \<rparr> else entry1);
          remaining = (if timestampEnd > 0 then substr_from line timestampEnd else line);
          entry3 =
            Log4j_levels
              [''TRACE'', ''DEBUG'', ''INFO'', ''WARN'', ''WARNING'', ''ERROR'', ''FATAL'',
               ''CRITICAL'']
              remaining entry2
      in if message entry3 = [] then entry3\<lparr> message := line \<rparr> else entry3)"

definition ParseLog4j :: "string \<Rightarrow> LogEntry list \<Rightarrow> LogEntry list" where
  "ParseLog4j content entries = parse_lines ParseLog4jLine content 0 1 entries"

section \<open>LOGFile::ParseGenericLog\<close>

definition ParseGenericLine :: "string \<Rightarrow> LogEntry \<Rightarrow> LogEntry" where
  "ParseGenericLine line entry =
     (let entry1 = entry\<lparr> message := line, level := LogLevel_Unknown \<rparr>;
          entry2 =
            (if line ! 0 = CHR ''['' then
               (case sv_find_ch line CHR '']'' 0 of
                  Some bracketEnd \<Rightarrow> entry1\<lparr> timestamp := substr line 1 (bracketEnd - 1) \<rparr>
                | None \<Rightarrow> entry1)
             else if length line \<ge> 10 \<and> line ! 4 = CHR ''-'' \<and> line ! 7 = CHR ''-'' then
               let tsEnd =
                     (if length line > 19 \<and> line ! 10 = CHR '' '' \<and> line ! 13 = CHR '':'' then
                        (if length line > 23 \<and> (line ! 19 = CHR ''.'' \<or> line ! 19 = CHR '','')
                         then 23 else 19)
                      else 10)
               in entry1\<lparr> timestamp := substr line 0 tsEnd \<rparr>
             else entry1);
          upperLine = to_upper line
      in if sv_contains upperLine ''FATAL'' \<or> sv_contains upperLine ''CRITICAL''
           then entry2\<lparr> level := LogLevel_Fatal \<rparr>
         else if sv_contains upperLine ''ERROR'' \<or> sv_contains upperLine ''EXCEPTION'' \<or>
                 sv_contains upperLine ''FAIL''
           then entry2\<lparr> level := LogLevel_Error \<rparr>
         else if sv_contains upperLine ''WARN'' then entry2\<lparr> level := LogLevel_Warning \<rparr>
         else if sv_contains upperLine ''DEBUG'' then entry2\<lparr> level := LogLevel_Debug \<rparr>
         else if sv_contains upperLine ''TRACE'' then entry2\<lparr> level := LogLevel_Trace \<rparr>
         else if sv_contains upperLine ''INFO'' then entry2\<lparr> level := LogLevel_Info \<rparr>
         else entry2)"

definition ParseGenericLog :: "string \<Rightarrow> LogEntry list \<Rightarrow> LogEntry list" where
  "ParseGenericLog content entries = parse_lines ParseGenericLine content 0 1 entries"

section \<open>LOGFile::UpdateStatistics\<close>

text \<open>The body of the first \<open>for\<close> loop: one severity counter, and at most one HTTP
  class counter.\<close>

definition count_entry :: "LogEntry \<Rightarrow> LogStatistics \<Rightarrow> LogStatistics" where
  "count_entry entry st =
     (let st1 =
            (case level entry of
               LogLevel_Trace \<Rightarrow> st\<lparr> traceCount := traceCount st + 1 \<rparr>
             | LogLevel_Debug \<Rightarrow> st\<lparr> debugCount := debugCount st + 1 \<rparr>
             | LogLevel_Info \<Rightarrow> st\<lparr> infoCount := infoCount st + 1 \<rparr>
             | LogLevel_Warning \<Rightarrow> st\<lparr> warningCount := warningCount st + 1 \<rparr>
             | LogLevel_Error \<Rightarrow> st\<lparr> errorCount := errorCount st + 1 \<rparr>
             | LogLevel_Fatal \<Rightarrow> st\<lparr> fatalCount := fatalCount st + 1 \<rparr>
             | LogLevel_Critical \<Rightarrow> st\<lparr> fatalCount := fatalCount st + 1 \<rparr>
             | LogLevel_Unknown \<Rightarrow> st\<lparr> unknownCount := unknownCount st + 1 \<rparr>)
      in if httpStatus entry \<ge> 200 \<and> httpStatus entry < 300
           then st1\<lparr> http2xxCount := http2xxCount st1 + 1 \<rparr>
         else if httpStatus entry \<ge> 300 \<and> httpStatus entry < 400
           then st1\<lparr> http3xxCount := http3xxCount st1 + 1 \<rparr>
         else if httpStatus entry \<ge> 400 \<and> httpStatus entry < 500
           then st1\<lparr> http4xxCount := http4xxCount st1 + 1 \<rparr>
         else if httpStatus entry \<ge> 500
           then st1\<lparr> http5xxCount := http5xxCount st1 + 1 \<rparr>
         else st1)"

text \<open>\<open>UpdateStatistics\<close> reads the member \<open>entries\<close> and overwrites the member \<open>stats\<close>:
  here a function from the one to the other. \<open>totalLines\<close> is the cast of
  \<open>entries.size()\<close> to \<open>uint32\<close>. The second and the third loop stop at the first entry
  with a timestamp, from the front and from the back.\<close>

definition UpdateStatistics :: "LogEntry list \<Rightarrow> LogStatistics" where
  "UpdateStatistics es =
     (let st0 = LogStatistics_new\<lparr> totalLines := of_nat (length es) \<rparr>;
          st1 = fold count_entry es st0;
          st2 =
            (case List.find (\<lambda>e. timestamp e \<noteq> []) es of
               Some e \<Rightarrow> st1\<lparr> firstTimestamp := timestamp e \<rparr>
             | None \<Rightarrow> st1)
      in case List.find (\<lambda>e. timestamp e \<noteq> []) (rev es) of
           Some e \<Rightarrow> st2\<lparr> lastTimestamp := timestamp e \<rparr>
         | None \<Rightarrow> st2)"

section \<open>LOGFile::Update\<close>

text \<open>The members of \<open>LOGFile\<close> that \<open>Update\<close> reads or writes. \<open>obj\<close> is the reference
  to the host's object: \<open>None\<close> when \<open>obj.IsValid()\<close> is false, otherwise the bytes of
  the document.\<close>

record LOGFile =
  detectedFormat :: LogFormat
  stats :: LogStatistics
  entries :: "LogEntry list"
  panelsMask :: "64 word"
  obj :: "string option"

text \<open>The constructor \<open>LOGFile()\<close> on a given object reference: the format is
  \<open>Unknown\<close>, the statistics are those of \<open>LogStatistics()\<close>, there are no entries, and the
  bits 0, 1 and 2 of the panel mask are set.\<close>

definition LOGFile_new :: "string option \<Rightarrow> LOGFile" where
  "LOGFile_new ref =
     \<lparr> detectedFormat = LogFormat_Unknown, stats = LogStatistics_new, entries = [],
       panelsMask = 7, obj = ref \<rparr>"

definition MAX_PARSE_SIZE :: nat where
  "MAX_PARSE_SIZE = 50 * 1024 * 1024"

text \<open>The \<open>switch\<close> of \<open>Update\<close> over the detected format.\<close>

definition parse_by_format :: "LogFormat \<Rightarrow> string \<Rightarrow> LogEntry list \<Rightarrow> LogEntry list" where
  "parse_by_format fmt content es =
     (case fmt of
        LogFormat_Apache \<Rightarrow> ParseApacheLog content es
      | LogFormat_Syslog \<Rightarrow> ParseSyslog content es
      | LogFormat_Log4j \<Rightarrow> ParseLog4j content es
      | _ \<Rightarrow> ParseGenericLog content es)"

text \<open>\<open>Update\<close> returns its \<open>bool\<close> together with the object after the call.\<close>

definition Update :: "LOGFile \<Rightarrow> bool \<times> LOGFile" where
  "Update this =
     (case obj this of
        None \<Rightarrow> (False, this)
      | Some data \<Rightarrow>
          if length data = 0 then (False, this)
          else
            let parseSize = min (length data) MAX_PARSE_SIZE;
                content = substr data 0 parseSize;
                this1 = this\<lparr> detectedFormat := DetectLogFormat content \<rparr>;
                this2 = this1\<lparr> entries := [] \<rparr>;
                this3 = this2\<lparr> entries :=
                          parse_by_format (detectedFormat this2) content (entries this2) \<rparr>;
                this4 = this3\<lparr> stats := UpdateStatistics (entries this3) \<rparr>
            in (True, this4))"

section \<open>The tokenizer: LOGFile::AnalyzeText\<close>

text \<open>The text of the lexical viewer is a sequence of UTF-16 code units (\<open>char16\<close>),
  here natural numbers; \<open>c16\<close> is the code unit of an ASCII character literal. The
  token types are the constants of \<open>namespace TokenType\<close>; the colours are those of the
  host's \<open>TokenColor\<close> that \<open>AnalyzeText\<close> uses.\<close>

type_synonym char16 = nat

definition c16 :: "char \<Rightarrow> char16" where
  "c16 c = of_char c"

datatype TokenType =
    TokenType_Timestamp
  | TokenType_Level
  | TokenType_LevelError
  | TokenType_LevelWarning
  | TokenType_LevelInfo
  | TokenType_LevelDebug
  | TokenType_Source
  | TokenType_Message
  | TokenType_IPAddress
  | TokenType_HTTPMethod
  | TokenType_HTTPStatus
  | TokenType_URL
  | TokenType_Number
  | TokenType_Bracket
  | TokenType_String
  | TokenType_Separator

datatype TokenColor =
    TokenColor_Operator
  | TokenColor_String
  | TokenColor_Number
  | TokenColor_Keyword
  | TokenColor_Keyword2
  | TokenColor_Word
  | TokenColor_Error
  | TokenColor_Comment

text \<open>What one call \<open>tokens.Add(type, start, end, color)\<close> appends to the token list.\<close>

record Token =
  tokType :: TokenType
  tokStart :: nat
  tokEnd :: nat
  tokColor :: TokenColor

definition is_digit16 :: "char16 \<Rightarrow> bool" where
  "is_digit16 c = (c16 CHR ''0'' \<le> c \<and> c \<le> c16 CHR ''9'')"

definition is_letter16 :: "char16 \<Rightarrow> bool" where
  "is_letter16 c =
     ((c16 CHR ''A'' \<le> c \<and> c \<le> c16 CHR ''Z'') \<or> (c16 CHR ''a'' \<le> c \<and> c \<le> c16 CHR ''z''))"

definition is_bracket16 :: "char16 \<Rightarrow> bool" where
  "is_bracket16 c =
     (c = c16 CHR ''['' \<or> c = c16 CHR '']'' \<or> c = c16 CHR ''('' \<or> c = c16 CHR '')'' \<or>
      c = c16 CHR ''{'' \<or> c = c16 CHR ''}'' \<or> c = c16 CHR ''<'' \<or> c = c16 CHR ''>'')"

text \<open>The loop that skips spaces and tabs.\<close>

function skip_space :: "char16 list \<Rightarrow> nat \<Rightarrow> nat" where
  "skip_space utext pos =
     (if pos < length utext \<and> (utext ! pos = c16 CHR '' '' \<or> utext ! pos = c16 (CHR 0x09))
      then skip_space utext (pos + 1)
      else pos)"
  by pat_completeness auto
termination
  by (relation "measure (\<lambda>(utext, pos). length utext - pos)") auto

declare skip_space.simps [simp del]

text \<open>The loop inside a quoted string: it stops at the closing quote, at a line end or
  at the end of the text; a backslash that is not the last character protects the
  character after it.\<close>

function scan_string :: "char16 list \<Rightarrow> char16 \<Rightarrow> nat \<Rightarrow> nat" where
  "scan_string utext quote pos =
     (if pos < length utext \<and> utext ! pos \<noteq> quote \<and>
         utext ! pos \<noteq> c16 (CHR 0x0A) \<and> utext ! pos \<noteq> c16 (CHR 0x0D)
      then scan_string utext quote
             ((if utext ! pos = c16 (CHR 0x5C) \<and> pos + 1 < length utext then pos + 1 else pos) + 1)
      else pos)"
  by pat_completeness auto
termination
  by (relation "measure (\<lambda>(utext, quote, pos). length utext - pos)") auto

declare scan_string.simps [simp del]

text \<open>The loop over a numeric run, with the local variables it updates.\<close>

record NumberRun =
  numPos :: nat
  hasColon :: bool
  hasDot :: bool
  hasDash :: bool
  colonCount :: nat
  dotCount :: nat

function scan_number :: "char16 list \<Rightarrow> NumberRun \<Rightarrow> NumberRun" where
  "scan_number utext run =
     (if numPos run < length utext then
        (if is_digit16 (utext ! numPos run) then
           scan_number utext (run\<lparr> numPos := numPos run + 1 \<rparr>)
         else if utext ! numPos run = c16 CHR ''.'' then
           scan_number utext
             (run\<lparr> hasDot := True, dotCount := dotCount run + 1, numPos := numPos run + 1 \<rparr>)
         else if utext ! numPos run = c16 CHR '':'' then
           scan_number utext
             (run\<lparr> hasColon := True, colonCount := colonCount run + 1,
                numPos := numPos run + 1 \<rparr>)
         else if utext ! numPos run = c16 CHR ''-'' then
           scan_number utext (run\<lparr> hasDash := True, numPos := numPos run + 1 \<rparr>)
         else if utext ! numPos run = c16 CHR ''/'' \<or> utext ! numPos run = c16 CHR ''T'' \<or>
                 utext ! numPos run = c16 CHR ''Z'' \<or> utext ! numPos run = c16 CHR ''+'' then
           scan_number utext (run\<lparr> numPos := numPos run + 1 \<rparr>)
         else run)
      else run)"
  by pat_completeness auto
termination
  by (relation "measure (\<lambda>(utext, run). length utext - numPos run)") auto

declare scan_number.simps [simp del]

text \<open>The loop over a word run: letters, digits, underscore, dash and dot.\<close>

definition is_word16 :: "char16 \<Rightarrow> bool" where
  "is_word16 c =
     (is_letter16 c \<or> is_digit16 c \<or> c = c16 CHR ''_'' \<or> c = c16 CHR ''-'' \<or> c = c16 CHR ''.'')"

function scan_word :: "char16 list \<Rightarrow> nat \<Rightarrow> nat" where
  "scan_word utext pos =
     (if pos < length utext \<and> is_word16 (utext ! pos) then scan_word utext (pos + 1) else pos)"
  by pat_completeness auto
termination
  by (relation "measure (\<lambda>(utext, pos). length utext - pos)") auto

declare scan_word.simps [simp del]

text \<open>\<open>wordUpper\<close>: the code units of the word below 128, each through \<open>toupper\<close>.\<close>

definition word_upper :: "char16 list \<Rightarrow> string" where
  "word_upper word = map (\<lambda>c. toupper (char_of c)) (filter (\<lambda>c. c < 128) word)"

text \<open>The chain of comparisons on \<open>wordUpper\<close>, with the defaults \<open>Message\<close> and
  \<open>Word\<close>.\<close>

definition classify_word :: "string \<Rightarrow> TokenType \<times> TokenColor" where
  "classify_word wordUpper =
     (if wordUpper = ''ERROR'' \<or> wordUpper = ''ERR'' \<or> wordUpper = ''ERRO''
        then (TokenType_LevelError, TokenColor_Error)
      else if wordUpper = ''WARN'' \<or> wordUpper = ''WARNING'' \<or> wordUpper = ''WRN''
        then (TokenType_LevelWarning, TokenColor_Keyword2)
      else if wordUpper = ''INFO'' \<or> wordUpper = ''INF'' \<or> wordUpper = ''INFORMATION''
        then (TokenType_LevelInfo, TokenColor_Keyword)
      else if wordUpper = ''DEBUG'' \<or> wordUpper = ''DBG'' \<or> wordUpper = ''DEBU''
        then (TokenType_LevelDebug, TokenColor_Comment)
      else if wordUpper = ''TRACE'' \<or> wordUpper = ''TRC''
        then (TokenType_LevelDebug, TokenColor_Comment)
      else if wordUpper = ''FATAL'' \<or> wordUpper = ''FTL'' \<or> wordUpper = ''CRITICAL'' \<or>
              wordUpper = ''CRIT''
        then (TokenType_LevelError, TokenColor_Error)
      else if wordUpper = ''GET'' \<or> wordUpper = ''POST'' \<or> wordUpper = ''PUT'' \<or>
              wordUpper = ''DELETE'' \<or> wordUpper = ''PATCH'' \<or> wordUpper = ''HEAD'' \<or>
              wordUpper = ''OPTIONS'' \<or> wordUpper = ''CONNECT'' \<or> wordUpper = ''TRACE''
        then (TokenType_HTTPMethod, TokenColor_Keyword2)
      else if wordUpper = ''HTTP''
        then (TokenType_HTTPMethod, TokenColor_Keyword2)
      else (TokenType_Message, TokenColor_Word))"

text \<open>The type and colour of a numeric run.\<close>

definition classify_number :: "NumberRun \<Rightarrow> TokenType \<times> TokenColor" where
  "classify_number run =
     (if dotCount run = 3 \<and> \<not> hasColon run \<and> \<not> hasDash run
        then (TokenType_IPAddress, TokenColor_Keyword2)
      else if hasDash run \<or> hasColon run
        then (TokenType_Timestamp, TokenColor_Keyword)
      else (TokenType_Number, TokenColor_Number))"

text \<open>One pass of the outer loop from a position that holds neither a space nor a tab:
  the position after the pass, and the token the pass adds, if any (a line end adds
  none).\<close>

definition scan_token :: "char16 list \<Rightarrow> nat \<Rightarrow> nat \<times> Token option" where
  "scan_token utext start =
     (let ch = utext ! start in
      if ch = c16 (CHR 0x0A) \<or> ch = c16 (CHR 0x0D) then
        (if start + 1 < length utext \<and>
            ((ch = c16 (CHR 0x0D) \<and> utext ! (start + 1) = c16 (CHR 0x0A)) \<or>
             (ch = c16 (CHR 0x0A) \<and> utext ! (start + 1) = c16 (CHR 0x0D)))
         then (start + 2, None)
         else (start + 1, None))
      else if is_bracket16 ch then
        (start + 1,
         Some \<lparr> tokType = TokenType_Bracket, tokStart = start, tokEnd = start + 1,
                tokColor = TokenColor_Operator \<rparr>)
      else if ch = c16 (CHR 0x22) \<or> ch = c16 (CHR 0x27) then
        (let pos1 = scan_string utext ch (start + 1);
             pos2 = (if pos1 < length utext \<and> utext ! pos1 = ch then pos1 + 1 else pos1)
         in (pos2,
             Some \<lparr> tokType = TokenType_String, tokStart = start, tokEnd = pos2,
                    tokColor = TokenColor_String \<rparr>))
      else if is_digit16 ch then
        (let run = scan_number utext
                     \<lparr> numPos = start, hasColon = False, hasDot = False, hasDash = False,
                       colonCount = 0, dotCount = 0 \<rparr>
         in (numPos run,
             Some \<lparr> tokType = fst (classify_number run), tokStart = start,
                    tokEnd = numPos run, tokColor = snd (classify_number run) \<rparr>))
      else if is_letter16 ch \<or> ch = c16 CHR ''_'' then
        (let pos1 = scan_word utext start;
             word = take (pos1 - start) (drop start utext);
             wordUpper = word_upper word
         in (pos1,
             Some \<lparr> tokType = fst (classify_word wordUpper), tokStart = start,
                    tokEnd = pos1, tokColor = snd (classify_word wordUpper) \<rparr>))
      else
        (start + 1,
         Some \<lparr> tokType = TokenType_Separator, tokStart = start, tokEnd = start + 1,
                tokColor = TokenColor_Operator \<rparr>))"

text \<open>Every inner loop moves forward, and a pass of the outer loop consumes at least
  one character: the outer loop terminates.\<close>

lemma skip_space_ge: "pos \<le> skip_space utext pos"
proof (induction utext pos rule: skip_space.induct)
  case (1 utext pos)
  then show ?case
    by (subst skip_space.simps) (auto split: if_splits)
qed

lemma scan_string_ge: "pos \<le> scan_string utext quote pos"
proof (induction utext quote pos rule: scan_string.induct)
  case (1 utext quote pos)
  then show ?case
    by (subst scan_string.simps) (auto split: if_splits)
qed

lemma scan_number_ge: "numPos run \<le> numPos (scan_number utext run)"
proof (induction "length utext - numPos run" arbitrary: run rule: less_induct)
  case less
  have "numPos run \<le> numPos (scan_number utext r)"
    if "numPos run < length utext" and "numPos r = numPos run + 1" for r
  proof -
    from that have "length utext - numPos r < length utext - numPos run"
      by arith
    from less [OF this] that show ?thesis
      by simp
  qed
  then show ?case
    by (subst scan_number.simps) simp
qed

lemma scan_word_ge: "pos \<le> scan_word utext pos"
proof (induction utext pos rule: scan_word.induct)
  case (1 utext pos)
  then show ?case
    by (subst scan_word.simps) (auto split: if_splits)
qed

lemma scan_number_digit:
  assumes "numPos run < length utext" and "is_digit16 (utext ! numPos run)"
  shows "numPos run < numPos (scan_number utext run)"
proof -
  have "scan_number utext run = scan_number utext (run\<lparr> numPos := numPos run + 1 \<rparr>)"
    using assms by (subst scan_number.simps) simp
  then show ?thesis
    using scan_number_ge [of "run\<lparr> numPos := numPos run + 1 \<rparr>" utext] by simp
qed

lemma scan_word_letter:
  assumes "pos < length utext" and "is_word16 (utext ! pos)"
  shows "pos < scan_word utext pos"
proof -
  have "scan_word utext pos = scan_word utext (pos + 1)"
    using assms by (subst scan_word.simps) simp
  then show ?thesis
    using scan_word_ge [of "pos + 1" utext] by simp
qed

lemma scan_token_advances:
  assumes "start < length utext"
  shows "start < fst (scan_token utext start)"
proof -
  have s: "start < (if p < length utext \<and> utext ! p = q then p + 1 else p)"
    if "p = scan_string utext q (start + 1)" for p q
    using that scan_string_ge [of "start + 1" utext q] by simp
  have n: "start < numPos (scan_number utext
        \<lparr> numPos = start, hasColon = False, hasDot = False, hasDash = False,
          colonCount = 0, dotCount = 0 \<rparr>)"
    if "is_digit16 (utext ! start)"
    using that assms scan_number_digit [of "\<lparr> numPos = start, hasColon = False,
      hasDot = False, hasDash = False, colonCount = 0, dotCount = 0 \<rparr>" utext]
    by simp
  have w: "start < scan_word utext start"
    if "is_letter16 (utext ! start) \<or> utext ! start = c16 CHR ''_''"
    using that assms scan_word_letter [of start utext] by (auto simp: is_word16_def)
  show ?thesis
    using s n w by (simp add: scan_token_def Let_def)
qed

text \<open>The outer loop of \<open>AnalyzeText\<close>; \<open>tokens\<close> is the token list of the syntax
  manager, to which the passes append.\<close>

function AnalyzeText_loop :: "char16 list \<Rightarrow> nat \<Rightarrow> Token list \<Rightarrow> Token list" where
  "AnalyzeText_loop utext pos tokens =
     (if pos < length utext then
        (if skip_space utext pos \<ge> length utext then tokens
         else
           AnalyzeText_loop utext (fst (scan_token utext (skip_space utext pos)))
             (case snd (scan_token utext (skip_space utext pos)) of
                None \<Rightarrow> tokens
              | Some token \<Rightarrow> tokens @ [token]))
      else tokens)"
  by pat_completeness auto
termination
proof (relation "measure (\<lambda>(utext, pos, tokens). length utext - pos)")
  show "wf (measure (\<lambda>(utext, pos, tokens). length utext - pos))"
    by simp
next
  fix utext :: "char16 list" and pos :: nat and tokens :: "Token list"
  assume "pos < length utext" and "\<not> length utext \<le> skip_space utext pos"
  then have "pos < fst (scan_token utext (skip_space utext pos))"
    using scan_token_advances [of "skip_space utext pos" utext] skip_space_ge [of pos utext]
    by simp
  with \<open>pos < length utext\<close> show
    "((utext, fst (scan_token utext (skip_space utext pos)),
       case snd (scan_token utext (skip_space utext pos)) of
         None \<Rightarrow> tokens
       | Some token \<Rightarrow> tokens @ [token]),
      (utext, pos, tokens))
     \<in> measure (\<lambda>(utext, pos, tokens). length utext - pos)"
    by simp
qed

declare AnalyzeText_loop.simps [simp del]

text \<open>The part of the host's \<open>SyntaxManager\<close> that \<open>AnalyzeText\<close> uses: the text it reads
  and the token list it appends to.\<close>

record SyntaxManager =
  syntax_text :: "char16 list"
  syntax_tokens :: "Token list"

definition AnalyzeText :: "SyntaxManager \<Rightarrow> SyntaxManager" where
  "AnalyzeText sm = sm\<lparr> syntax_tokens := AnalyzeText_loop (syntax_text sm) 0 (syntax_tokens sm) \<rparr>"

text \<open>The text of the lexical viewer for an ASCII string, and the tokens of a text
  analysed with an empty token list.\<close>

definition u16 :: "string \<Rightarrow> char16 list" where
  "u16 s = map c16 s"

definition tokenize :: "char16 list \<Rightarrow> Token list" where
  "tokenize utext = syntax_tokens (AnalyzeText \<lparr> syntax_text = utext, syntax_tokens = [] \<rparr>)"

section \<open>The detection rules as the specification words them\<close>

text \<open>Section 4.2 of the specification gives five rules over the sample, each a
  combination of "the sample contains this text", tried in a fixed order, first match
  wins, \<open>Custom\<close> when none matches. Here "contains" is \<open>sublist\<close>: the text occurs
  somewhere between a prefix and a suffix of the sample. The quoted status markers are
  a double quote, a space, the status and a space, as in the source.\<close>

definition spec_rule_WebAccess :: "string \<Rightarrow> bool" where
  "spec_rule_WebAccess s =
     (sublist '' - - ['' s \<and>
      (sublist ([CHR 0x22] @ '' 200 '') s \<or> sublist ([CHR 0x22] @ '' 404 '') s \<or>
       sublist ([CHR 0x22] @ '' 500 '') s \<or> sublist ''GET '' s \<or> sublist ''POST '' s))"

definition spec_rule_WebError :: "string \<Rightarrow> bool" where
  "spec_rule_WebError s =
     (\<exists>marker \<in> set [''[error]'', ''[warn]'', ''[notice]'', ''[crit]'']. sublist marker s)"

definition spec_rule_Syslog :: "string \<Rightarrow> bool" where
  "spec_rule_Syslog s =
     ((\<exists>month \<in> set [''Jan'', ''Feb'', ''Mar'', ''Apr'', ''May'', ''Jun'', ''Jul'', ''Aug'',
                       ''Sep'', ''Oct'', ''Nov'', ''Dec'']. sublist (month @ '' '') s) \<and>
      sublist '']: '' s)"

definition spec_rule_StructuredFramework :: "string \<Rightarrow> bool" where
  "spec_rule_StructuredFramework s =
     ((\<exists>lvl \<in> set [''INFO'', ''DEBUG'', ''ERROR'', ''WARN''].
         sublist ('' '' @ lvl @ '' '') s \<or> sublist (''['' @ lvl @ '']'') s) \<and>
      sublist '' - '' s)"

definition spec_rule_JSON :: "string \<Rightarrow> bool" where
  "spec_rule_JSON s =
     (sublist (''{'' @ [CHR 0x22]) s \<and>
      (\<exists>key \<in> set [''timestamp'', ''level'', ''message''].
         sublist ([CHR 0x22] @ key @ [CHR 0x22]) s))"

definition spec_rules :: "((string \<Rightarrow> bool) \<times> LogFormat) list" where
  "spec_rules =
     [(spec_rule_WebAccess, LogFormat_Apache),
      (spec_rule_WebError, LogFormat_ApacheError),
      (spec_rule_Syslog, LogFormat_Syslog),
      (spec_rule_StructuredFramework, LogFormat_Log4j),
      (spec_rule_JSON, LogFormat_JSON)]"

fun first_match :: "((string \<Rightarrow> bool) \<times> LogFormat) list \<Rightarrow> string \<Rightarrow> LogFormat" where
  "first_match [] s = LogFormat_Custom"
| "first_match ((rule, fmt) # rules) s = (if rule s then fmt else first_match rules s)"

section \<open>The status of an access-log line as the specification words it\<close>

text \<open>The decimal value of a run of digits, written as the sum of its digits times
  powers of ten, and the severity that section 4.4 derives from a status.\<close>

definition decimal_value :: "string \<Rightarrow> int" where
  "decimal_value ds = (\<Sum>i<length ds. digit_value (ds ! i) * 10 ^ (length ds - 1 - i))"

definition status_severity :: "int \<Rightarrow> LogLevel" where
  "status_severity status =
     (if status \<ge> 500 then LogLevel_Error
      else if status \<ge> 400 then LogLevel_Warning
      else LogLevel_Info)"

text \<open>A line of an access log whose record is at its defaults, as the line loop passes
  it to the parser.\<close>

definition fresh_entry :: "nat \<Rightarrow> nat \<Rightarrow> nat \<Rightarrow> LogEntry" where
  "fresh_entry start stop num =
     LogEntry_new\<lparr> lineStart := start, lineEnd := stop, lineNumber := num \<rparr>"

section \<open>The syslog record as the specification words it\<close>

text \<open>The reference definition of claim C6, from its words. \<open>colon_offsets\<close> are the
  offsets at which a colon followed by a space stands; a text contains a word
  case-insensitively when the word occurs in the text written in capitals; the level
  follows the priority Error, Warning, Debug, Info.\<close>

definition colon_offsets :: "string \<Rightarrow> nat list" where
  "colon_offsets line = filter (\<lambda>i. take 2 (drop i line) = '': '') [0..<length line]"

definition after_first_space :: "string \<Rightarrow> string" where
  "after_first_space s =
     (if CHR '' '' \<in> set s then tl (dropWhile (\<lambda>c. c \<noteq> CHR '' '') s) else [])"

definition ci_contains :: "string \<Rightarrow> string \<Rightarrow> bool" where
  "ci_contains s word = sublist word (to_upper s)"

definition syslog_level :: "string \<Rightarrow> LogLevel" where
  "syslog_level msg =
     (if ci_contains msg ''ERROR'' \<or> ci_contains msg ''FAIL'' then LogLevel_Error
      else if ci_contains msg ''WARN'' then LogLevel_Warning
      else if ci_contains msg ''DEBUG'' then LogLevel_Debug
      else LogLevel_Info)"

text \<open>The source and the message when the colon at offset \<open>colon\<close> is taken: the text
  after the first space of the range from offset 16 to the colon, and the text after
  the colon and its space.\<close>

definition split_at_colon :: "string \<Rightarrow> nat \<Rightarrow> string \<times> string" where
  "split_at_colon line colon =
     (after_first_space (take (colon - 16) (drop 16 line)), drop (colon + 2) line)"

text \<open>The claim as stated takes a colon and space that "occurs at an offset greater than
  15": the first of the offsets above 15. The result is the timestamp, the source, the
  message and the level.\<close>

definition Syslog_reference_stated :: "string \<Rightarrow> string \<times> string \<times> string \<times> LogLevel" where
  "Syslog_reference_stated line =
     (let ts = (if length line \<ge> 15 then take 15 line else []);
          (src, msg) =
            (case filter (\<lambda>i. i > 15) (colon_offsets line) of
               [] \<Rightarrow> ([], line)
             | colon # _ \<Rightarrow> split_at_colon line colon)
      in (ts, src, msg, syslog_level msg))"

text \<open>The claim as amended takes the first colon and space of the line, and only when
  its offset is greater than 15.\<close>

definition Syslog_reference :: "string \<Rightarrow> string \<times> string \<times> string \<times> LogLevel" where
  "Syslog_reference line =
     (let ts = (if length line \<ge> 15 then take 15 line else []);
          (src, msg) =
            (case colon_offsets line of
               [] \<Rightarrow> ([], line)
             | colon # _ \<Rightarrow> if colon > 15 then split_at_colon line colon else ([], line))
      in (ts, src, msg, syslog_level msg))"

section \<open>The token spans as the specification words them\<close>

text \<open>A character that the tokenizer skips outside a token: space, tab, line feed,
  carriage return. A token covers the positions from its start up to, not including,
  its end.\<close>

definition skippable :: "char16 \<Rightarrow> bool" where
  "skippable c =
     (c = c16 CHR '' '' \<or> c = c16 (CHR 0x09) \<or> c = c16 (CHR 0x0A) \<or> c = c16 (CHR 0x0D))"

definition covers :: "Token \<Rightarrow> nat \<Rightarrow> bool" where
  "covers t p = (tokStart t \<le> p \<and> p < tokEnd t)"

text \<open>The tokens tile the text from \<open>pos\<close> on: the text is a run of skipped characters,
  the extent of the first token (not empty), a run of skipped characters, the extent of
  the second token, and so on to the end of the text.\<close>

fun tiles :: "char16 list \<Rightarrow> nat \<Rightarrow> Token list \<Rightarrow> bool" where
  "tiles utext pos [] =
     (pos \<le> length utext \<and> (\<forall>p \<in> {pos..<length utext}. skippable (utext ! p)))"
| "tiles utext pos (t # ts) =
     (pos \<le> tokStart t \<and> tokStart t < tokEnd t \<and> tokEnd t \<le> length utext \<and>
      (\<forall>p \<in> {pos..<tokStart t}. skippable (utext ! p)) \<and>
      tiles utext (tokEnd t) ts)"

text \<open>The skipped runs and the token extents from \<open>pos\<close> on, in the order of the text.\<close>

fun pieces :: "char16 list \<Rightarrow> nat \<Rightarrow> Token list \<Rightarrow> char16 list list" where
  "pieces utext pos [] = [drop pos utext]"
| "pieces utext pos (t # ts) =
     take (tokStart t - pos) (drop pos utext) #
     take (tokEnd t - tokStart t) (drop (tokStart t) utext) #
     pieces utext (tokEnd t) ts"

section \<open>Inputs of the scenarios\<close>

text \<open>The line of scenario A of the specification, an access-log line with status
  200.\<close>

definition scenario_A_line :: string where
  "scenario_A_line =
     ''127.0.0.1 - - [10/Oct/2023:13:55:36 +0000] '' @ [CHR 0x22] @
     ''GET /index.html HTTP/1.1'' @ [CHR 0x22] @ '' 200 612''"

section \<open>Refresh: failure and success of \<open>Update\<close>\<close>

lemma Update_invalid: "obj this = None \<Longrightarrow> Update this = (False, this)"
  by (simp add: Update_def)

lemma Update_empty: "obj this = Some [] \<Longrightarrow> Update this = (False, this)"
  by (simp add: Update_def)

lemma take_parse_size: "substr data 0 (min (length data) MAX_PARSE_SIZE) = take MAX_PARSE_SIZE data"
  by (simp add: substr_def min_def)

lemma Update_nonempty:
  "obj this = Some data \<Longrightarrow> data \<noteq> [] \<Longrightarrow>
   Update this =
     (True, this\<lparr> detectedFormat := DetectLogFormat (take MAX_PARSE_SIZE data),
              entries := parse_by_format (DetectLogFormat (take MAX_PARSE_SIZE data))
                           (take MAX_PARSE_SIZE data) [],
              stats := UpdateStatistics
                         (parse_by_format (DetectLogFormat (take MAX_PARSE_SIZE data))
                            (take MAX_PARSE_SIZE data) []) \<rparr>)"
  by (simp add: Update_def Let_def take_parse_size)

text \<open>A document below the parse cap is parsed whole.\<close>

lemma Update_small:
  assumes "data \<noteq> []" and "length data \<le> MAX_PARSE_SIZE"
  shows "Update (LOGFile_new (Some data)) =
     (True, (LOGFile_new (Some data))\<lparr> detectedFormat := DetectLogFormat data,
              entries := parse_by_format (DetectLogFormat data) data [],
              stats := UpdateStatistics (parse_by_format (DetectLogFormat data) data []) \<rparr>)"
  using assms Update_nonempty [of "LOGFile_new (Some data)" data]
  by (simp add: LOGFile_new_def)

lemma Update_fails_iff: "\<not> fst (Update this) \<longleftrightarrow> obj this = None \<or> obj this = Some []"
proof (cases "obj this")
  case None
  then show ?thesis by (simp add: Update_invalid)
next
  case (Some data)
  then show ?thesis
    by (cases "data = []") (simp_all add: Update_empty Update_nonempty)
qed

text \<open>Claim C9. \<open>Update\<close> returns false exactly when the object reference is invalid or
  the source holds zero bytes; on a freshly constructed session such a call leaves no
  entries and the statistics of \<open>LogStatistics()\<close>, all counters zero. On every valid,
  non-empty source \<open>Update\<close> returns true, and the object then holds the format detected
  on the first \<open>MAX_PARSE_SIZE\<close> bytes, the entries of the parser chosen for that
  format (run on no entries), and the statistics of those entries. All the functions
  involved are total, so the call completes.\<close>

theorem Update_success_and_failure:
  "(\<not> fst (Update this) \<longleftrightarrow> obj this = None \<or> obj this = Some []) \<and>
   (ref = None \<or> ref = Some [] \<longrightarrow>
      Update (LOGFile_new ref) = (False, LOGFile_new ref) \<and>
      entries (snd (Update (LOGFile_new ref))) = [] \<and>
      stats (snd (Update (LOGFile_new ref))) = LogStatistics_new) \<and>
   (obj this = Some data \<and> data \<noteq> [] \<longrightarrow>
      fst (Update this) \<and>
      detectedFormat (snd (Update this)) = DetectLogFormat (take MAX_PARSE_SIZE data) \<and>
      entries (snd (Update this)) =
        (case detectedFormat (snd (Update this)) of
           LogFormat_Apache \<Rightarrow> ParseApacheLog (take MAX_PARSE_SIZE data) []
         | LogFormat_Syslog \<Rightarrow> ParseSyslog (take MAX_PARSE_SIZE data) []
         | LogFormat_Log4j \<Rightarrow> ParseLog4j (take MAX_PARSE_SIZE data) []
         | _ \<Rightarrow> ParseGenericLog (take MAX_PARSE_SIZE data) []) \<and>
      stats (snd (Update this)) = UpdateStatistics (entries (snd (Update this))) \<and>
      obj (snd (Update this)) = obj this \<and> panelsMask (snd (Update this)) = panelsMask this)"
proof (intro conjI impI)
  show "(\<not> fst (Update this)) = (obj this = None \<or> obj this = Some [])"
    by (rule Update_fails_iff)
next
  assume r: "ref = None \<or> ref = Some []"
  then show u: "Update (LOGFile_new ref) = (False, LOGFile_new ref)"
    by (auto simp: Update_invalid Update_empty LOGFile_new_def)
  then show "entries (snd (Update (LOGFile_new ref))) = []"
    and "stats (snd (Update (LOGFile_new ref))) = LogStatistics_new"
    by (simp_all add: LOGFile_new_def)
next
  assume "obj this = Some data \<and> data \<noteq> []"
  then have u: "Update this =
     (True, this\<lparr> detectedFormat := DetectLogFormat (take MAX_PARSE_SIZE data),
              entries := parse_by_format (DetectLogFormat (take MAX_PARSE_SIZE data))
                           (take MAX_PARSE_SIZE data) [],
              stats := UpdateStatistics
                         (parse_by_format (DetectLogFormat (take MAX_PARSE_SIZE data))
                            (take MAX_PARSE_SIZE data) []) \<rparr>)"
    by (simp add: Update_nonempty)
  show "fst (Update this)"
    and "detectedFormat (snd (Update this)) = DetectLogFormat (take MAX_PARSE_SIZE data)"
    and "entries (snd (Update this)) =
        (case detectedFormat (snd (Update this)) of
           LogFormat_Apache \<Rightarrow> ParseApacheLog (take MAX_PARSE_SIZE data) []
         | LogFormat_Syslog \<Rightarrow> ParseSyslog (take MAX_PARSE_SIZE data) []
         | LogFormat_Log4j \<Rightarrow> ParseLog4j (take MAX_PARSE_SIZE data) []
         | _ \<Rightarrow> ParseGenericLog (take MAX_PARSE_SIZE data) [])"
    and "stats (snd (Update this)) = UpdateStatistics (entries (snd (Update this)))"
    and "obj (snd (Update this)) = obj this"
    and "panelsMask (snd (Update this)) = panelsMask this"
    by (simp_all add: u parse_by_format_def)
qed

text \<open>The witness: a fresh session on an invalid reference, on an empty source, and on
  the one-line document \<open>boot ok\<close>.\<close>

theorem Update_success_and_failure_witness:
  "\<not> fst (Update (LOGFile_new None)) \<and>
   Update (LOGFile_new (Some [])) = (False, LOGFile_new (Some [])) \<and>
   stats (snd (Update (LOGFile_new (Some [])))) = LogStatistics_new \<and>
   fst (Update (LOGFile_new (Some ''boot ok''))) \<and>
   detectedFormat (snd (Update (LOGFile_new (Some ''boot ok'')))) = LogFormat_Custom \<and>
   map message (entries (snd (Update (LOGFile_new (Some ''boot ok''))))) = [''boot ok'']"
proof -
  have o: "obj (LOGFile_new (Some ''boot ok'')) = Some ''boot ok''"
    by (simp add: LOGFile_new_def)
  have t: "take MAX_PARSE_SIZE ''boot ok'' = ''boot ok''"
    by (simp add: MAX_PARSE_SIZE_def)
  have d: "DetectLogFormat ''boot ok'' = LogFormat_Custom"
    by code_simp
  have e: "map message (ParseGenericLog ''boot ok'' []) = [''boot ok'']"
    by code_simp
  have n: "obj (LOGFile_new None) = None"
    by (simp add: LOGFile_new_def)
  show ?thesis
    using Update_success_and_failure [of "LOGFile_new None" "Some []" "[]"]
      Update_success_and_failure [of "LOGFile_new (Some ''boot ok'')" None "''boot ok''"]
      o n d e
    by (simp add: t LOGFile_new_def)
qed

text \<open>Claim C10. A call of \<open>Update\<close> that fails, because the object reference is
  invalid or the source holds zero bytes, returns before the format is detected again
  and before the entries are cleared: the object after the call is the object before
  it, so the entries, the statistics and the detected format of the last successful
  refresh are kept.\<close>

theorem Update_failure_keeps_state:
  assumes "\<not> fst (Update this)"
  shows "snd (Update this) = this \<and>
    entries (snd (Update this)) = entries this \<and>
    stats (snd (Update this)) = stats this \<and>
    detectedFormat (snd (Update this)) = detectedFormat this"
proof -
  from assms have "obj this = None \<or> obj this = Some []"
    by (simp add: Update_fails_iff)
  then have "snd (Update this) = this"
    by (auto simp: Update_invalid Update_empty)
  then show ?thesis
    by simp
qed

text \<open>The witness: a session is refreshed on a one-line document, then the host's
  source becomes empty and the session is refreshed again.\<close>

theorem Update_failure_keeps_state_witness:
  "\<not> fst (Update (snd (Update (LOGFile_new (Some ''boot ok'')))\<lparr> obj := Some [] \<rparr>)) \<and>
   map message
     (entries (snd (Update (snd (Update (LOGFile_new (Some ''boot ok'')))\<lparr> obj := Some [] \<rparr>)))) =
   [''boot ok''] \<and>
   detectedFormat (snd (Update (snd (Update (LOGFile_new (Some ''boot ok'')))\<lparr> obj := Some [] \<rparr>))) =
   LogFormat_Custom"
proof -
  define s where "s = snd (Update (LOGFile_new (Some ''boot ok'')))\<lparr> obj := Some [] \<rparr>"
  have f: "\<not> fst (Update s)"
    by (simp add: s_def Update_fails_iff)
  have d: "DetectLogFormat ''boot ok'' = LogFormat_Custom"
    by code_simp
  have e: "map message (ParseGenericLog ''boot ok'' []) = [''boot ok'']"
    by code_simp
  have "length ''boot ok'' \<le> MAX_PARSE_SIZE"
    by (simp add: MAX_PARSE_SIZE_def)
  then have u: "map message (entries s) = [''boot ok''] \<and> detectedFormat s = LogFormat_Custom"
    using d e by (simp add: s_def Update_small parse_by_format_def)
  show ?thesis
    using f Update_failure_keeps_state [OF f] u unfolding s_def by simp
qed

section \<open>Scenario A\<close>

text \<open>Claim C4. On the single line
  \<^verbatim>\<open>127.0.0.1 - - [10/Oct/2023:13:55:36 +0000] "GET /index.html HTTP/1.1" 200 612\<close>
  the detector returns \<open>Apache\<close> (the web access format), and the refresh produces one
  record with ipAddress 127.0.0.1, timestamp 10/Oct/2023:13:55:36 +0000, httpMethod
  GET, url /index.html, httpStatus 200 and level Info.\<close>

theorem scenario_A:
  "DetectLogFormat scenario_A_line = LogFormat_Apache \<and>
   fst (Update (LOGFile_new (Some scenario_A_line))) \<and>
   detectedFormat (snd (Update (LOGFile_new (Some scenario_A_line)))) = LogFormat_Apache \<and>
   map (\<lambda>e. (ipAddress e, timestamp e, httpMethod e, url e, httpStatus e, level e))
     (entries (snd (Update (LOGFile_new (Some scenario_A_line))))) =
   [(''127.0.0.1'', ''10/Oct/2023:13:55:36 +0000'', ''GET'', ''/index.html'', 200,
     LogLevel_Info)]"
proof -
  have d: "DetectLogFormat scenario_A_line = LogFormat_Apache"
    unfolding scenario_A_line_def by code_simp
  have e: "map (\<lambda>e. (ipAddress e, timestamp e, httpMethod e, url e, httpStatus e, level e))
      (ParseApacheLog scenario_A_line []) =
    [(''127.0.0.1'', ''10/Oct/2023:13:55:36 +0000'', ''GET'', ''/index.html'', 200,
      LogLevel_Info)]"
    unfolding scenario_A_line_def by code_simp
  have "scenario_A_line \<noteq> []" and "length scenario_A_line \<le> MAX_PARSE_SIZE"
    by (simp_all add: scenario_A_line_def MAX_PARSE_SIZE_def)
  then show ?thesis
    using d e by (simp add: Update_small parse_by_format_def)
qed

section \<open>The message of a record\<close>

text \<open>The generic parser keeps the whole line as the message, and the structured
  framework parser never leaves the message of a non-empty line empty.\<close>

lemma ParseGenericLine_message: "message (ParseGenericLine line entry) = line"
  by (simp add: ParseGenericLine_def Let_def split: option.split)

lemma ParseLog4jLine_message: "line \<noteq> [] \<Longrightarrow> message (ParseLog4jLine line entry) \<noteq> []"
  by (simp add: ParseLog4jLine_def Let_def)

text \<open>Claim C1 says that every record of a non-empty line has a non-empty message, the
  whole line when nothing could be extracted. \<open>ParseSyslog\<close> and \<open>ParseGenericLog\<close>
  store the line as the message before anything else and \<open>ParseLog4j\<close> falls back to
  the line when the message is empty, but \<open>ParseApacheLog\<close> stores the message only
  inside the branch taken when the line has a space: the line \<open>abc\<close> gives a record
  with an empty message, also when it is the second line of a document that \<open>Update\<close>
  detects as an access log. \<open>ParseSyslog\<close> overwrites the message with the text after
  the colon, which is empty for a line that ends in a colon and a space.\<close>

theorem message_empty_for_nonempty_line:
  "map message (ParseApacheLog ''abc'' []) = [[]] \<and>
   detectedFormat (snd (Update (LOGFile_new (Some (scenario_A_line @ [CHR 0x0A] @ ''abc''))))) =
   LogFormat_Apache \<and>
   map message
     (entries (snd (Update (LOGFile_new (Some (scenario_A_line @ [CHR 0x0A] @ ''abc'')))))) =
   [scenario_A_line, []] \<and>
   map message (ParseSyslog ''Jan  1 12:00:00 host proc[12]: '' []) = [[]]"
proof -
  have a: "map message (ParseApacheLog ''abc'' []) = [[]]"
    by code_simp
  have d: "DetectLogFormat (scenario_A_line @ [CHR 0x0A] @ ''abc'') = LogFormat_Apache"
    unfolding scenario_A_line_def by code_simp
  have e: "map message (ParseApacheLog (scenario_A_line @ [CHR 0x0A] @ ''abc'') []) =
    [scenario_A_line, []]"
    unfolding scenario_A_line_def by code_simp
  have s: "map message (ParseSyslog ''Jan  1 12:00:00 host proc[12]: '' []) = [[]]"
    by code_simp
  have "length (scenario_A_line @ [CHR 0x0A] @ ''abc'') \<le> MAX_PARSE_SIZE"
    by (simp add: scenario_A_line_def MAX_PARSE_SIZE_def)
  then show ?thesis
    using a d e s by (simp add: Update_small parse_by_format_def)
qed

section \<open>Format detection\<close>

text \<open>\<open>find\<close> returns a position exactly when the needle occurs in the haystack.\<close>

lemma find_at_sublist: "find_at needle s \<noteq> None \<longleftrightarrow> sublist needle s"
  by (induction s) (auto simp: sublist_Cons_right)

lemma sv_contains_sublist: "sv_contains s needle \<longleftrightarrow> sublist needle s"
  using find_at_sublist [of needle s] by (simp add: sv_contains_def sv_find_def)

lemma sample_take: "substr content 0 (min (length content) 4096) = take 4096 content"
  by (simp add: substr_def min_def)

lemma rule_WebAccess_code:
  "(sv_contains s '' - - ['' \<and>
    (sv_contains s [CHR 0x22, CHR '' '', CHR ''2'', CHR ''0'', CHR ''0'', CHR '' ''] \<or>
     sv_contains s [CHR 0x22, CHR '' '', CHR ''4'', CHR ''0'', CHR ''4'', CHR '' ''] \<or>
     sv_contains s [CHR 0x22, CHR '' '', CHR ''5'', CHR ''0'', CHR ''0'', CHR '' ''] \<or>
     sv_contains s ''GET '' \<or>
     sv_contains s ''POST '')) = spec_rule_WebAccess s"
  by (simp add: spec_rule_WebAccess_def sv_contains_sublist)

lemma rule_WebError_code:
  "(sv_contains s ''[error]'' \<or> sv_contains s ''[warn]'' \<or> sv_contains s ''[notice]'' \<or>
    sv_contains s ''[crit]'') = spec_rule_WebError s"
  by (simp add: spec_rule_WebError_def sv_contains_sublist)

lemma rule_Syslog_code:
  "((sv_contains s ''Jan '' \<or> sv_contains s ''Feb '' \<or>
     sv_contains s ''Mar '' \<or> sv_contains s ''Apr '' \<or>
     sv_contains s ''May '' \<or> sv_contains s ''Jun '' \<or>
     sv_contains s ''Jul '' \<or> sv_contains s ''Aug '' \<or>
     sv_contains s ''Sep '' \<or> sv_contains s ''Oct '' \<or>
     sv_contains s ''Nov '' \<or> sv_contains s ''Dec '') \<and>
    sv_contains s '']: '') = spec_rule_Syslog s"
  by (simp add: spec_rule_Syslog_def sv_contains_sublist)

lemma rule_StructuredFramework_code:
  "((sv_contains s '' INFO '' \<or> sv_contains s '' DEBUG '' \<or>
     sv_contains s '' ERROR '' \<or> sv_contains s '' WARN '' \<or>
     sv_contains s ''[INFO]'' \<or> sv_contains s ''[DEBUG]'' \<or>
     sv_contains s ''[ERROR]'' \<or> sv_contains s ''[WARN]'') \<and>
    sv_contains s '' - '') = spec_rule_StructuredFramework s"
  unfolding spec_rule_StructuredFramework_def sv_contains_sublist
  by simp blast

lemma rule_JSON_code:
  "(sv_contains s [CHR ''{'', CHR 0x22] \<and>
    (sv_contains s ([CHR 0x22] @ ''timestamp'' @ [CHR 0x22]) \<or>
     sv_contains s ([CHR 0x22] @ ''level'' @ [CHR 0x22]) \<or>
     sv_contains s ([CHR 0x22] @ ''message'' @ [CHR 0x22]))) = spec_rule_JSON s"
  by (simp add: spec_rule_JSON_def sv_contains_sublist)

lemma DetectLogFormat_first_match:
  "DetectLogFormat content = first_match spec_rules (take 4096 content)"
  unfolding DetectLogFormat_def Let_def sample_take rule_WebAccess_code rule_WebError_code
    rule_Syslog_code rule_StructuredFramework_code rule_JSON_code
  by (simp add: spec_rules_def)

text \<open>Claim C2. \<open>DetectLogFormat\<close> looks at the first 4096 bytes only (at all of a
  shorter document): it gives the same result on the document and on that prefix. Its
  result is that of the five rules of the specification tried in their order on the
  sample, the first that matches deciding. So a sample that matches the web access rule
  and the structured framework rule is \<open>Apache\<close>, and a sample that matches no rule is
  \<open>Custom\<close>.\<close>

theorem DetectLogFormat_priority:
  "DetectLogFormat content = DetectLogFormat (take 4096 content) \<and>
   DetectLogFormat content = first_match spec_rules (take 4096 content) \<and>
   (spec_rule_WebAccess (take 4096 content) \<and>
    spec_rule_StructuredFramework (take 4096 content) \<longrightarrow>
      DetectLogFormat content = LogFormat_Apache) \<and>
   ((\<forall>r \<in> set spec_rules. \<not> fst r (take 4096 content)) \<longrightarrow>
      DetectLogFormat content = LogFormat_Custom)"
proof (intro conjI impI)
  show "DetectLogFormat content = DetectLogFormat (take 4096 content)"
    by (simp add: DetectLogFormat_first_match)
  show "DetectLogFormat content = first_match spec_rules (take 4096 content)"
    by (rule DetectLogFormat_first_match)
next
  assume "spec_rule_WebAccess (take 4096 content) \<and>
    spec_rule_StructuredFramework (take 4096 content)"
  then show "DetectLogFormat content = LogFormat_Apache"
    by (simp add: DetectLogFormat_first_match spec_rules_def)
next
  assume "\<forall>r \<in> set spec_rules. \<not> fst r (take 4096 content)"
  then show "DetectLogFormat content = LogFormat_Custom"
    by (simp add: DetectLogFormat_first_match spec_rules_def)
qed

text \<open>The witness: a sample with the access-log signature and the level marker
  \<open>INFO\<close> between spaces, and a sample that matches no rule.\<close>

theorem DetectLogFormat_priority_witness:
  "spec_rule_WebAccess (take 4096 ''1.2.3.4 - - [t] GET /a INFO ok'') \<and>
   spec_rule_StructuredFramework (take 4096 ''1.2.3.4 - - [t] GET /a INFO ok'') \<and>
   DetectLogFormat ''1.2.3.4 - - [t] GET /a INFO ok'' = LogFormat_Apache \<and>
   \<not> spec_rule_WebAccess (take 4096 ''boot ok'') \<and>
   \<not> spec_rule_WebError (take 4096 ''boot ok'') \<and>
   \<not> spec_rule_Syslog (take 4096 ''boot ok'') \<and>
   \<not> spec_rule_StructuredFramework (take 4096 ''boot ok'') \<and>
   \<not> spec_rule_JSON (take 4096 ''boot ok'') \<and>
   DetectLogFormat ''boot ok'' = LogFormat_Custom"
proof -
  have a: "spec_rule_WebAccess (take 4096 ''1.2.3.4 - - [t] GET /a INFO ok'')"
    by code_simp
  have b: "spec_rule_StructuredFramework (take 4096 ''1.2.3.4 - - [t] GET /a INFO ok'')"
    by code_simp
  have c: "\<not> spec_rule_WebAccess (take 4096 ''boot ok'')"
    "\<not> spec_rule_WebError (take 4096 ''boot ok'')"
    "\<not> spec_rule_Syslog (take 4096 ''boot ok'')"
    "\<not> spec_rule_StructuredFramework (take 4096 ''boot ok'')"
    "\<not> spec_rule_JSON (take 4096 ''boot ok'')"
    by code_simp+
  then have d: "\<forall>r \<in> set spec_rules. \<not> fst r (take 4096 ''boot ok'')"
    by (simp add: spec_rules_def)
  show ?thesis
    using DetectLogFormat_priority [of "''1.2.3.4 - - [t] GET /a INFO ok''"]
      DetectLogFormat_priority [of "''boot ok''"] a b c d
    by blast
qed

section \<open>The status and the severity of an access-log line\<close>

lemma find_at_first:
  "c \<notin> set pre \<Longrightarrow> find_at [c] (pre @ c # xs) = Some (length pre)"
  by (induction pre) auto

lemma sv_find_ch_first:
  "c \<notin> set pre \<Longrightarrow> sv_find_ch (skipped @ pre @ c # xs) c (length skipped) =
     Some (length skipped + length pre)"
  by (simp add: sv_find_ch_def sv_find_def find_at_first)

lemma sv_find_ch_member: "c \<in> set s \<Longrightarrow> \<exists>i. sv_find_ch s c 0 = Some i"
proof -
  assume "c \<in> set s"
  then obtain ys zs where "s = ys @ c # zs" and "c \<notin> set ys"
    by (auto dest: split_list_first)
  then show ?thesis
    using sv_find_ch_first [of c ys "[]" zs] by auto
qed

lemma find_first_of_none: "(\<forall>c \<in> set xs. c \<notin> set chars) \<Longrightarrow> find_first_of xs chars = None"
  by (induction xs) auto

lemma find_first_of_first:
  "(\<forall>c \<in> set skipped. c \<notin> set chars) \<Longrightarrow> d \<in> set chars \<Longrightarrow>
   find_first_of (skipped @ d # ys) chars = Some (length skipped)"
  by (induction skipped) auto

lemma decimal_value_Cons:
  "decimal_value (d # ds) = digit_value d * 10 ^ length ds + decimal_value ds"
  by (simp add: decimal_value_def sum.lessThan_Suc_shift del: sum.lessThan_Suc)

lemma foldl_decimal:
  "foldl (\<lambda>acc c. acc * 10 + digit_value c) a ds = a * 10 ^ length ds + decimal_value ds"
proof (induction ds arbitrary: a)
  case Nil
  show ?case by (simp add: decimal_value_def)
next
  case (Cons d ds)
  show ?case
    by (simp add: Cons.IH decimal_value_Cons) (simp add: algebra_simps)
qed

lemma atoi_run:
  assumes "\<forall>c \<in> set digits. isdigit c" and "tail = [] \<or> \<not> isdigit (hd tail)"
  shows "atoi (digits @ tail) = decimal_value digits"
proof -
  have "takeWhile isdigit (digits @ tail) = digits"
    using assms by (cases tail) (simp_all add: takeWhile_append2)
  then show ?thesis
    by (simp add: atoi_def foldl_decimal)
qed

text \<open>What \<open>ParseApacheLine\<close> stores as status and level on a line with a space and a
  quoted request, in terms of the text after the closing quote.\<close>

lemma ParseApacheLine_request:
  assumes sp: "CHR '' '' \<in> set line"
    and l: "line = pre @ [CHR 0x22] @ req @ [CHR 0x22] @ rest"
    and p: "CHR 0x22 \<notin> set pre" and r: "CHR 0x22 \<notin> set req"
  shows "httpStatus (ParseApacheLine line entry) =
      (case find_first_of rest ''0123456789'' of
         None \<Rightarrow> httpStatus entry
       | Some numStart \<Rightarrow> atoi (drop numStart rest))"
    and "level (ParseApacheLine line entry) =
      (case find_first_of rest ''0123456789'' of
         None \<Rightarrow> level entry
       | Some numStart \<Rightarrow> status_severity (atoi (drop numStart rest)))"
proof -
  obtain ipEnd where i: "sv_find_ch line CHR '' '' 0 = Some ipEnd"
    using sv_find_ch_member [OF sp] by blast
  have q1: "sv_find_ch line (CHR 0x22) 0 = Some (length pre)"
    using sv_find_ch_first [OF p, of "[]" "req @ [CHR 0x22] @ rest"] by (simp add: l)
  have q2: "sv_find_ch line (CHR 0x22) (Suc (length pre)) = Some (Suc (length pre + length req))"
    using sv_find_ch_first [OF r, of "pre @ [CHR 0x22]" rest] by (simp add: l)
  have a: "drop (Suc (Suc (length pre + length req))) line = rest"
    by (simp add: l)
  show "httpStatus (ParseApacheLine line entry) =
      (case find_first_of rest ''0123456789'' of
         None \<Rightarrow> httpStatus entry
       | Some numStart \<Rightarrow> atoi (drop numStart rest))"
    by (simp add: ParseApacheLine_def i q1 q2 a Let_def substr_from_def
        split: option.split)
  show "level (ParseApacheLine line entry) =
      (case find_first_of rest ''0123456789'' of
         None \<Rightarrow> level entry
       | Some numStart \<Rightarrow> status_severity (atoi (drop numStart rest)))"
    by (simp add: ParseApacheLine_def i q1 q2 a Let_def substr_from_def status_severity_def
        split: option.split)
qed

text \<open>Claim C5, as amended. On a line that has a space and a quoted request, with
  \<open>rest\<close> the text after the closing quote: when \<open>rest\<close> holds no digit, the status
  stays 0 and the level stays \<open>Unknown\<close> (the level is derived only inside the branch
  taken when a digit was found); when \<open>rest\<close> holds a digit, the status is the decimal
  value of its first run of digits (for a value that fits a C \<open>int\<close>) and the level is
  Error from 500, Warning from 400 and Info below.\<close>

theorem ParseApacheLine_status:
  assumes "CHR '' '' \<in> set line"
    and "line = pre @ [CHR 0x22] @ req @ [CHR 0x22] @ rest"
    and "CHR 0x22 \<notin> set pre" and "CHR 0x22 \<notin> set req"
  shows
    "((\<forall>c \<in> set rest. \<not> isdigit c) \<longrightarrow>
        httpStatus (ParseApacheLine line (fresh_entry start stop num)) = 0 \<and>
        level (ParseApacheLine line (fresh_entry start stop num)) = LogLevel_Unknown) \<and>
     (rest = skipped @ digits @ tail \<and> (\<forall>c \<in> set skipped. \<not> isdigit c) \<and>
      digits \<noteq> [] \<and> (\<forall>c \<in> set digits. isdigit c) \<and>
      (tail = [] \<or> \<not> isdigit (hd tail)) \<and> decimal_value digits \<le> 2147483647 \<longrightarrow>
        httpStatus (ParseApacheLine line (fresh_entry start stop num)) = decimal_value digits \<and>
        level (ParseApacheLine line (fresh_entry start stop num)) =
          status_severity (decimal_value digits))"
proof (intro conjI impI)
  note req = ParseApacheLine_request [OF assms, of "fresh_entry start stop num"]
  {
    assume "\<forall>c \<in> set rest. \<not> isdigit c"
    then have "find_first_of rest ''0123456789'' = None"
      using find_first_of_none [of rest "''0123456789''"] by (simp add: isdigit_def)
    then show "httpStatus (ParseApacheLine line (fresh_entry start stop num)) = 0"
      and "level (ParseApacheLine line (fresh_entry start stop num)) = LogLevel_Unknown"
      by (simp_all add: req) (simp_all add: fresh_entry_def LogEntry_new_def)
  }
  {
    assume h: "rest = skipped @ digits @ tail \<and> (\<forall>c \<in> set skipped. \<not> isdigit c) \<and>
      digits \<noteq> [] \<and> (\<forall>c \<in> set digits. isdigit c) \<and>
      (tail = [] \<or> \<not> isdigit (hd tail)) \<and> decimal_value digits \<le> 2147483647"
    then obtain d ds where d: "digits = d # ds"
      by (cases digits) auto
    with h have "d \<in> set ''0123456789''"
      by (simp add: isdigit_def)
    moreover from h have "\<forall>c \<in> set skipped. c \<notin> set ''0123456789''"
      by (simp add: isdigit_def)
    ultimately have f: "find_first_of rest ''0123456789'' = Some (length skipped)"
      using h d find_first_of_first [of skipped "''0123456789''" d "ds @ tail"] by simp
    have "atoi (drop (length skipped) rest) = decimal_value digits"
      using h atoi_run [of digits tail] by simp
    then show "httpStatus (ParseApacheLine line (fresh_entry start stop num)) =
        decimal_value digits"
      and "level (ParseApacheLine line (fresh_entry start stop num)) =
        status_severity (decimal_value digits)"
      by (simp_all add: req f)
  }
qed

text \<open>The witness: the line of scenario A, whose first run of digits after the request
  is 200, and an access-log line with a dash where the status should be.\<close>

theorem ParseApacheLine_status_witness:
  "httpStatus (ParseApacheLine scenario_A_line (fresh_entry 0 77 1)) = decimal_value ''200'' \<and>
   decimal_value ''200'' = 200 \<and>
   level (ParseApacheLine scenario_A_line (fresh_entry 0 77 1)) = LogLevel_Info \<and>
   httpStatus (ParseApacheLine (''1.2.3.4 - - [t] '' @ [CHR 0x22] @ ''GET / HTTP/1.1'' @
       [CHR 0x22] @ '' -'') (fresh_entry 0 35 1)) = 0 \<and>
   level (ParseApacheLine (''1.2.3.4 - - [t] '' @ [CHR 0x22] @ ''GET / HTTP/1.1'' @
       [CHR 0x22] @ '' -'') (fresh_entry 0 35 1)) = LogLevel_Unknown"
proof -
  have v: "decimal_value ''200'' = 200"
    by (simp add: decimal_value_def digit_value_def lessThan_Suc numeral_3_eq_3)
  have s: "status_severity 200 = LogLevel_Info"
    by (simp add: status_severity_def)
  have a: "httpStatus (ParseApacheLine scenario_A_line (fresh_entry 0 77 1)) =
      decimal_value ''200'' \<and>
    level (ParseApacheLine scenario_A_line (fresh_entry 0 77 1)) =
      status_severity (decimal_value ''200'')"
    using ParseApacheLine_status [of scenario_A_line
        "''127.0.0.1 - - [10/Oct/2023:13:55:36 +0000] ''" "''GET /index.html HTTP/1.1''"
        "'' 200 612''" 0 77 1 "'' ''" "''200''" "'' 612''"]
    by (simp add: scenario_A_line_def isdigit_def v)
  have b: "httpStatus (ParseApacheLine (''1.2.3.4 - - [t] '' @ [CHR 0x22] @
        ''GET / HTTP/1.1'' @ [CHR 0x22] @ '' -'') (fresh_entry 0 35 1)) = 0 \<and>
    level (ParseApacheLine (''1.2.3.4 - - [t] '' @ [CHR 0x22] @ ''GET / HTTP/1.1'' @
        [CHR 0x22] @ '' -'') (fresh_entry 0 35 1)) = LogLevel_Unknown"
    using ParseApacheLine_status [of "''1.2.3.4 - - [t] '' @ [CHR 0x22] @
        ''GET / HTTP/1.1'' @ [CHR 0x22] @ '' -''"
        "''1.2.3.4 - - [t] ''" "''GET / HTTP/1.1''" "'' -''" 0 35 1]
    by (simp add: isdigit_def)
  show ?thesis
    using a b v s by simp
qed

text \<open>Claim C5 as the specification states it gives the level Info to every line whose
  status is below 400, "including when the remainder is non-numeric and httpStatus is
  0". On the access-log line with a dash after the request the remainder holds no
  digit, the status is 0, and the level is \<open>Unknown\<close>, not the Info that the rule of the
  specification derives from the status 0.\<close>

theorem ParseApacheLine_status_counterexample:
  "filter isdigit '' -'' = [] \<and>
   httpStatus (ParseApacheLine (''1.2.3.4 - - [t] '' @ [CHR 0x22] @ ''GET / HTTP/1.1'' @
       [CHR 0x22] @ '' -'') (fresh_entry 0 35 1)) = 0 \<and>
   status_severity 0 = LogLevel_Info \<and>
   level (ParseApacheLine (''1.2.3.4 - - [t] '' @ [CHR 0x22] @ ''GET / HTTP/1.1'' @
       [CHR 0x22] @ '' -'') (fresh_entry 0 35 1)) = LogLevel_Unknown \<and>
   level (ParseApacheLine (''1.2.3.4 - - [t] '' @ [CHR 0x22] @ ''GET / HTTP/1.1'' @
       [CHR 0x22] @ '' -'') (fresh_entry 0 35 1)) \<noteq> status_severity 0"
  by code_simp

section \<open>Statistics\<close>

text \<open>The number of records never exceeds the number of bytes parsed: every pass of the
  line loop consumes at least one byte and appends at most one record.\<close>

lemma parse_lines_length:
  "length (parse_lines body content pos lineNum es) \<le> length es + (length content - pos)"
proof (induction body content pos lineNum es rule: parse_lines.induct)
  case (1 body content pos lineNum es)
  show ?case
  proof (cases "pos < length content")
    case True
    have "pos \<le> find_line_end content pos"
      using True find_line_end_bounds [of pos content] by simp
    then show ?thesis
      using True "1.IH" [OF True]
      by (subst parse_lines.simps) (auto simp: Let_def split: if_splits)
  next
    case False
    then show ?thesis
      by (subst parse_lines.simps) simp
  qed
qed

lemma parse_by_format_length: "length (parse_by_format fmt content []) \<le> length content"
  using parse_lines_length [of _ content 0 1 "[]"]
  by (simp add: parse_by_format_def ParseApacheLog_def ParseSyslog_def ParseLog4j_def
      ParseGenericLog_def split: LogFormat.split)

text \<open>The severity bucket and the HTTP class of one record, as the \<open>switch\<close> and the
  \<open>if\<close> chain of \<open>UpdateStatistics\<close> select them.\<close>

lemma count_entry_severity:
  "traceCount (count_entry e st) = traceCount st + (if level e = LogLevel_Trace then 1 else 0)"
  "debugCount (count_entry e st) = debugCount st + (if level e = LogLevel_Debug then 1 else 0)"
  "infoCount (count_entry e st) = infoCount st + (if level e = LogLevel_Info then 1 else 0)"
  "warningCount (count_entry e st) =
     warningCount st + (if level e = LogLevel_Warning then 1 else 0)"
  "errorCount (count_entry e st) = errorCount st + (if level e = LogLevel_Error then 1 else 0)"
  "fatalCount (count_entry e st) =
     fatalCount st + (if level e = LogLevel_Fatal \<or> level e = LogLevel_Critical then 1 else 0)"
  "unknownCount (count_entry e st) =
     unknownCount st + (if level e = LogLevel_Unknown then 1 else 0)"
  by (simp_all add: count_entry_def Let_def split: LogLevel.split)

lemma count_entry_http:
  "http2xxCount (count_entry e st) =
     http2xxCount st + (if 200 \<le> httpStatus e \<and> httpStatus e < 300 then 1 else 0)"
  "http3xxCount (count_entry e st) =
     http3xxCount st + (if 300 \<le> httpStatus e \<and> httpStatus e < 400 then 1 else 0)"
  "http4xxCount (count_entry e st) =
     http4xxCount st + (if 400 \<le> httpStatus e \<and> httpStatus e < 500 then 1 else 0)"
  "http5xxCount (count_entry e st) =
     http5xxCount st + (if 500 \<le> httpStatus e then 1 else 0)"
  by (simp_all add: count_entry_def Let_def split: LogLevel.split)

lemma count_entry_other:
  "totalLines (count_entry e st) = totalLines st"
  by (simp add: count_entry_def Let_def split: LogLevel.split)

text \<open>A counter that the loop body raises by one exactly on the records with the
  property \<open>P\<close> ends the loop raised by the number of those records.\<close>

lemma fold_count_entry:
  assumes "\<And>e st. c (count_entry e st) = c st + (if P e then 1 else (0 :: 32 word))"
  shows "c (fold count_entry es st) = c st + of_nat (length (filter P es))"
  by (induction es arbitrary: st) (simp_all add: assms)

lemma UpdateStatistics_fold:
  assumes "\<And>e st. c (count_entry e st) = c st + (if P e then 1 else (0 :: 32 word))"
    and "\<And>st f. c (st\<lparr> firstTimestamp := f \<rparr>) = c st"
    and "\<And>st f. c (st\<lparr> lastTimestamp := f \<rparr>) = c st"
    and "\<And>n. c (LogStatistics_new\<lparr> totalLines := n \<rparr>) = 0"
  shows "c (UpdateStatistics es) = of_nat (length (filter P es))"
  using fold_count_entry [of c P es, OF assms(1)]
  by (simp add: UpdateStatistics_def Let_def assms(2,3,4) split: option.split)

lemma UpdateStatistics_counters:
  "traceCount (UpdateStatistics es) = of_nat (length (filter (\<lambda>e. level e = LogLevel_Trace) es))"
  "debugCount (UpdateStatistics es) = of_nat (length (filter (\<lambda>e. level e = LogLevel_Debug) es))"
  "infoCount (UpdateStatistics es) = of_nat (length (filter (\<lambda>e. level e = LogLevel_Info) es))"
  "warningCount (UpdateStatistics es) =
     of_nat (length (filter (\<lambda>e. level e = LogLevel_Warning) es))"
  "errorCount (UpdateStatistics es) = of_nat (length (filter (\<lambda>e. level e = LogLevel_Error) es))"
  "fatalCount (UpdateStatistics es) =
     of_nat (length (filter (\<lambda>e. level e = LogLevel_Fatal \<or> level e = LogLevel_Critical) es))"
  "unknownCount (UpdateStatistics es) =
     of_nat (length (filter (\<lambda>e. level e = LogLevel_Unknown) es))"
  "http2xxCount (UpdateStatistics es) =
     of_nat (length (filter (\<lambda>e. 200 \<le> httpStatus e \<and> httpStatus e < 300) es))"
  "http3xxCount (UpdateStatistics es) =
     of_nat (length (filter (\<lambda>e. 300 \<le> httpStatus e \<and> httpStatus e < 400) es))"
  "http4xxCount (UpdateStatistics es) =
     of_nat (length (filter (\<lambda>e. 400 \<le> httpStatus e \<and> httpStatus e < 500) es))"
  "http5xxCount (UpdateStatistics es) =
     of_nat (length (filter (\<lambda>e. 500 \<le> httpStatus e) es))"
  by (rule UpdateStatistics_fold;
      simp add: count_entry_severity count_entry_http LogStatistics_new_def)+

lemma UpdateStatistics_totalLines: "totalLines (UpdateStatistics es) = of_nat (length es)"
proof -
  have "totalLines (fold count_entry es st) = totalLines st" for st
    by (induction es arbitrary: st) (simp_all add: count_entry_other)
  then show ?thesis
    by (simp add: UpdateStatistics_def Let_def split: option.split)
qed

text \<open>Every record falls into exactly one of the seven severity buckets.\<close>

lemma severity_partition:
  "length (filter (\<lambda>e. level e = LogLevel_Trace) es) +
   length (filter (\<lambda>e. level e = LogLevel_Debug) es) +
   length (filter (\<lambda>e. level e = LogLevel_Info) es) +
   length (filter (\<lambda>e. level e = LogLevel_Warning) es) +
   length (filter (\<lambda>e. level e = LogLevel_Error) es) +
   length (filter (\<lambda>e. level e = LogLevel_Fatal \<or> level e = LogLevel_Critical) es) +
   length (filter (\<lambda>e. level e = LogLevel_Unknown) es) = length es"
proof (induction es)
  case Nil
  show ?case by simp
next
  case (Cons e es)
  then show ?case
    by (cases "level e") simp_all
qed

lemma unat_count:
  "length es < 2 ^ 32 \<Longrightarrow> unat (of_nat (length (filter P es)) :: 32 word) = length (filter P es)"
proof -
  assume "length es < 2 ^ 32"
  moreover have "length (filter P es) \<le> length es"
    by simp
  ultimately have "length (filter P es) < 2 ^ 32"
    by linarith
  then show ?thesis
    by (simp add: unat_of_nat)
qed

lemma Update_success_state:
  assumes "Update this = (True, this')"
  shows "stats this' = UpdateStatistics (entries this') \<and> length (entries this') < 2 ^ 32"
proof -
  from assms have "fst (Update this)"
    by simp
  then obtain data where d: "obj this = Some data" "data \<noteq> []"
    using Update_fails_iff [of this] by (cases "obj this") auto
  have "length (parse_by_format fmt (take MAX_PARSE_SIZE data) []) \<le> MAX_PARSE_SIZE" for fmt
    using parse_by_format_length [of fmt "take MAX_PARSE_SIZE data"] by simp
  moreover have "MAX_PARSE_SIZE < 2 ^ 32"
    by (simp add: MAX_PARSE_SIZE_def)
  ultimately have "length (parse_by_format fmt (take MAX_PARSE_SIZE data) []) < 2 ^ 32" for fmt
    using le_less_trans by blast
  then show ?thesis
    using assms Update_nonempty [OF d] by auto
qed

text \<open>Claim C3. After a successful refresh the seven severity counters (Fatal and
  Critical share \<open>fatalCount\<close>) add up to \<open>totalLines\<close>, which is the number of
  records; the counters are 32-bit, and the parse cap keeps the number of records below
  \<open>2 ^ 32\<close>, so nothing wraps. Each HTTP class counter is the number of records whose
  \<open>httpStatus\<close> lies in its range, so a record is counted in exactly one class when its
  status is at least 200 and in none otherwise, in particular when it is 0.\<close>

theorem statistics_after_refresh:
  assumes "Update this = (True, this')"
  shows
    "unat (traceCount (stats this')) + unat (debugCount (stats this')) +
     unat (infoCount (stats this')) + unat (warningCount (stats this')) +
     unat (errorCount (stats this')) + unat (fatalCount (stats this')) +
     unat (unknownCount (stats this')) = unat (totalLines (stats this')) \<and>
     unat (totalLines (stats this')) = length (entries this') \<and>
     unat (fatalCount (stats this')) =
       length (filter (\<lambda>e. level e = LogLevel_Fatal \<or> level e = LogLevel_Critical)
         (entries this')) \<and>
     unat (http2xxCount (stats this')) =
       length (filter (\<lambda>e. 200 \<le> httpStatus e \<and> httpStatus e < 300) (entries this')) \<and>
     unat (http3xxCount (stats this')) =
       length (filter (\<lambda>e. 300 \<le> httpStatus e \<and> httpStatus e < 400) (entries this')) \<and>
     unat (http4xxCount (stats this')) =
       length (filter (\<lambda>e. 400 \<le> httpStatus e \<and> httpStatus e < 500) (entries this')) \<and>
     unat (http5xxCount (stats this')) =
       length (filter (\<lambda>e. 500 \<le> httpStatus e) (entries this')) \<and>
     unat (http2xxCount (stats this')) + unat (http3xxCount (stats this')) +
     unat (http4xxCount (stats this')) + unat (http5xxCount (stats this')) =
       length (filter (\<lambda>e. 200 \<le> httpStatus e) (entries this'))"
proof -
  from Update_success_state [OF assms]
  have s: "stats this' = UpdateStatistics (entries this')"
    and b: "length (entries this') < 2 ^ 32"
    by simp_all
  have t: "unat (totalLines (stats this')) = length (entries this')"
    using b by (simp add: s UpdateStatistics_totalLines unat_of_nat)
  have h: "length (filter (\<lambda>e. 200 \<le> httpStatus e \<and> httpStatus e < 300) es) +
      length (filter (\<lambda>e. 300 \<le> httpStatus e \<and> httpStatus e < 400) es) +
      length (filter (\<lambda>e. 400 \<le> httpStatus e \<and> httpStatus e < 500) es) +
      length (filter (\<lambda>e. 500 \<le> httpStatus e) es) =
      length (filter (\<lambda>e. 200 \<le> httpStatus e) es)" for es :: "LogEntry list"
    by (induction es) auto
  show ?thesis
    using severity_partition [of "entries this'"] h [of "entries this'"] t
    by (simp add: s UpdateStatistics_counters unat_count [OF b])
qed

text \<open>The witness: the access-log line of scenario A followed by the line \<open>abc\<close>; the
  first record has status 200 and level Info, the second status 0 and level Unknown.\<close>

theorem statistics_after_refresh_witness:
  "fst (Update (LOGFile_new (Some (scenario_A_line @ [CHR 0x0A] @ ''abc'')))) \<and>
   map (\<lambda>e. (level e, httpStatus e))
     (entries (snd (Update (LOGFile_new (Some (scenario_A_line @ [CHR 0x0A] @ ''abc'')))))) =
   [(LogLevel_Info, 200), (LogLevel_Unknown, 0)] \<and>
   unat (totalLines (stats (snd (Update
     (LOGFile_new (Some (scenario_A_line @ [CHR 0x0A] @ ''abc''))))))) = 2 \<and>
   unat (http2xxCount (stats (snd (Update
     (LOGFile_new (Some (scenario_A_line @ [CHR 0x0A] @ ''abc''))))))) = 1 \<and>
   unat (http5xxCount (stats (snd (Update
     (LOGFile_new (Some (scenario_A_line @ [CHR 0x0A] @ ''abc''))))))) = 0"
proof -
  define doc where "doc = scenario_A_line @ [CHR 0x0A] @ ''abc''"
  have d: "DetectLogFormat doc = LogFormat_Apache"
    unfolding doc_def scenario_A_line_def by code_simp
  have e: "map (\<lambda>e. (level e, httpStatus e)) (ParseApacheLog doc []) =
      [(LogLevel_Info, 200), (LogLevel_Unknown, 0)]"
    unfolding doc_def scenario_A_line_def by code_simp
  have "doc \<noteq> []" and "length doc \<le> MAX_PARSE_SIZE"
    by (simp_all add: doc_def scenario_A_line_def MAX_PARSE_SIZE_def)
  then have u: "fst (Update (LOGFile_new (Some doc)))"
    and v: "entries (snd (Update (LOGFile_new (Some doc)))) = ParseApacheLog doc []"
    using d by (simp_all add: Update_small parse_by_format_def)
  from u have "Update (LOGFile_new (Some doc)) = (True, snd (Update (LOGFile_new (Some doc))))"
    by (cases "Update (LOGFile_new (Some doc))") simp
  from statistics_after_refresh [OF this] e u v
  have "fst (Update (LOGFile_new (Some doc))) \<and>
    map (\<lambda>e. (level e, httpStatus e)) (entries (snd (Update (LOGFile_new (Some doc))))) =
      [(LogLevel_Info, 200), (LogLevel_Unknown, 0)] \<and>
    unat (totalLines (stats (snd (Update (LOGFile_new (Some doc)))))) = 2 \<and>
    unat (http2xxCount (stats (snd (Update (LOGFile_new (Some doc)))))) = 1 \<and>
    unat (http5xxCount (stats (snd (Update (LOGFile_new (Some doc)))))) = 0"
    by (auto simp: map_eq_Cons_conv)
  then show ?thesis
    by (simp add: doc_def)
qed

section \<open>The syslog parser against its reference definition\<close>

lemma prefix_take_eq: "prefix needle s \<longleftrightarrow> take (length needle) s = needle"
  by (metis append_eq_conv_conj prefix_def take_is_prefix)

lemma filter_upt_Suc:
  "filter P [0..<Suc n] = (if P 0 then [0] else []) @ map Suc (filter (P \<circ> Suc) [0..<n])"
proof -
  have "[0..<Suc n] = 0 # map Suc [0..<n]"
    by (simp add: upt_conv_Cons map_Suc_upt del: upt_Suc)
  then show ?thesis
    by (simp add: filter_map del: upt_Suc)
qed

text \<open>\<open>find\<close> from offset 0 returns the least offset at which the needle stands.\<close>

lemma find_at_offsets:
  "needle \<noteq> [] \<Longrightarrow>
   find_at needle s =
     (case filter (\<lambda>i. take (length needle) (drop i s) = needle) [0..<length s] of
        [] \<Rightarrow> None
      | i # _ \<Rightarrow> Some i)"
proof (induction s)
  case Nil
  then show ?case by simp
next
  case (Cons c cs)
  then show ?case
    by (simp add: filter_upt_Suc prefix_take_eq comp_def del: upt_Suc split: list.split)
qed

lemma sv_find_colon:
  "sv_find line '': '' 0 = (case colon_offsets line of [] \<Rightarrow> None | i # _ \<Rightarrow> Some i)"
  using find_at_offsets [of "'': ''" line]
  by (simp add: sv_find_def colon_offsets_def numeral_2_eq_2 split: list.split)

lemma sv_find_ch_0: "sv_find_ch s c 0 = find_at [c] s"
  by (cases "find_at [c] s") (simp_all add: sv_find_ch_def sv_find_def)

lemma source_after_first_space:
  "(case sv_find_ch s CHR '' '' 0 of None \<Rightarrow> [] | Some spacePos \<Rightarrow> drop (spacePos + 1) s) =
   after_first_space s"
  unfolding sv_find_ch_0 after_first_space_def
  by (induction s) (auto split: option.split)

lemma syslog_level_code:
  "(if sv_contains (to_upper msg) ''ERROR'' \<or> sv_contains (to_upper msg) ''FAIL''
      then LogLevel_Error
    else if sv_contains (to_upper msg) ''WARN'' then LogLevel_Warning
    else if sv_contains (to_upper msg) ''DEBUG'' then LogLevel_Debug
    else LogLevel_Info) = syslog_level msg"
  by (simp add: syslog_level_def ci_contains_def sv_contains_sublist)

text \<open>Claim C6, as amended. The record of a line in \<open>ParseSyslog\<close> has the timestamp,
  the source, the message and the level of the reference definition in which the colon
  and space is the first one of the line and counts only when its offset is greater
  than 15: the timestamp is the first 15 characters of a line that has as many (empty
  otherwise); with such a colon the source is the text after the first space of the
  range from offset 16 to the colon (empty when the range has no space) and the message
  is the text after the colon and its space; otherwise the message is the whole line
  and the source is empty; the level is Error when the message contains ERROR or FAIL
  case-insensitively, else Warning for WARN, else Debug for DEBUG, else Info.\<close>

theorem ParseSyslogLine_reference:
  "(timestamp (ParseSyslogLine line (fresh_entry start stop num)),
    source (ParseSyslogLine line (fresh_entry start stop num)),
    message (ParseSyslogLine line (fresh_entry start stop num)),
    level (ParseSyslogLine line (fresh_entry start stop num))) = Syslog_reference line"
proof (cases "colon_offsets line")
  case Nil
  then show ?thesis
    by (simp add: ParseSyslogLine_def Syslog_reference_def sv_find_colon Let_def
        syslog_level_code substr_def fresh_entry_def LogEntry_new_def)
next
  case (Cons colon rest)
  show ?thesis
  proof (cases "colon > 15")
    case False
    with Cons show ?thesis
      by (simp add: ParseSyslogLine_def Syslog_reference_def sv_find_colon Let_def
          syslog_level_code substr_def fresh_entry_def LogEntry_new_def)
  next
    case True
    have "source (case sv_find_ch s CHR '' '' 0 of
                    None \<Rightarrow> e
                  | Some spacePos \<Rightarrow> e\<lparr> source := substr_from s (spacePos + 1) \<rparr>) =
        after_first_space s" if "source e = []" for s and e :: LogEntry
      using that source_after_first_space [of s]
      by (simp add: substr_from_def split: option.splits)
    note src = this [of _ "take (colon - 16) (drop 16 line)"]
    from True Cons show ?thesis
      by (simp add: ParseSyslogLine_def Syslog_reference_def sv_find_colon Let_def
          syslog_level_code substr_def substr_from_def split_at_colon_def fresh_entry_def
          LogEntry_new_def src split: option.split)
  qed
qed

text \<open>The amended reference definition at a conventional syslog line.\<close>

theorem ParseSyslogLine_reference_witness:
  "Syslog_reference ''Jan  1 12:00:00 host proc[12]: something failed'' =
     (''Jan  1 12:00:00'', ''proc[12]'', ''something failed'', LogLevel_Error) \<and>
   source (ParseSyslogLine ''Jan  1 12:00:00 host proc[12]: something failed''
     (fresh_entry 0 47 1)) = ''proc[12]'' \<and>
   message (ParseSyslogLine ''Jan  1 12:00:00 host proc[12]: something failed''
     (fresh_entry 0 47 1)) = ''something failed''"
proof -
  have "Syslog_reference ''Jan  1 12:00:00 host proc[12]: something failed'' =
     (''Jan  1 12:00:00'', ''proc[12]'', ''something failed'', LogLevel_Error)"
    by code_simp
  then show ?thesis
    using ParseSyslogLine_reference
      [of "''Jan  1 12:00:00 host proc[12]: something failed''" 0 47 1]
    by simp
qed

text \<open>Claim C6 as the specification states it. In the line
  \<open>kernel: eth0 link is up: ok ready\<close> a colon and space stands at offset 6 and at
  offset 23. The stated reference definition takes the one at offset 23, which is
  greater than 15, and gives the source \<open>is up\<close> and the message \<open>ok ready\<close>.
  \<open>ParseSyslog\<close> looks at the first colon and space only, finds its offset 6 not
  greater than 15, and keeps the whole line as the message and the source empty.\<close>

theorem ParseSyslogLine_reference_counterexample:
  "colon_offsets ''kernel: eth0 link is up: ok ready'' = [6, 23] \<and>
   Syslog_reference_stated ''kernel: eth0 link is up: ok ready'' =
     (''kernel: eth0 li'', ''is up'', ''ok ready'', LogLevel_Info) \<and>
   source (ParseSyslogLine ''kernel: eth0 link is up: ok ready'' (fresh_entry 0 33 1)) = [] \<and>
   message (ParseSyslogLine ''kernel: eth0 link is up: ok ready'' (fresh_entry 0 33 1)) =
     ''kernel: eth0 link is up: ok ready'' \<and>
   (timestamp (ParseSyslogLine ''kernel: eth0 link is up: ok ready'' (fresh_entry 0 33 1)),
    source (ParseSyslogLine ''kernel: eth0 link is up: ok ready'' (fresh_entry 0 33 1)),
    message (ParseSyslogLine ''kernel: eth0 link is up: ok ready'' (fresh_entry 0 33 1)),
    level (ParseSyslogLine ''kernel: eth0 link is up: ok ready'' (fresh_entry 0 33 1))) \<noteq>
   Syslog_reference_stated ''kernel: eth0 link is up: ok ready''"
  by code_simp

section \<open>The tokenizer tiles the text\<close>

text \<open>The inner loops stay inside the text.\<close>

lemma skip_space_le: "pos \<le> length utext \<Longrightarrow> skip_space utext pos \<le> length utext"
proof (induction utext pos rule: skip_space.induct)
  case (1 utext pos)
  then show ?case
    by (subst skip_space.simps) (auto split: if_splits)
qed

lemma skip_space_skipped:
  "pos \<le> p \<Longrightarrow> p < skip_space utext pos \<Longrightarrow> skippable (utext ! p)"
proof (induction utext pos rule: skip_space.induct)
  case (1 utext pos)
  show ?case
  proof (cases "pos < length utext \<and>
      (utext ! pos = c16 CHR '' '' \<or> utext ! pos = c16 (CHR 0x09))")
    case True
    then have s: "skip_space utext pos = skip_space utext (pos + 1)"
      by (subst skip_space.simps) simp
    show ?thesis
    proof (cases "p = pos")
      case True
      with \<open>pos < length utext \<and> _\<close> show ?thesis
        by (auto simp: skippable_def)
    next
      case False
      with "1.prems" s "1.IH" [OF True] show ?thesis
        by simp
    qed
  next
    case False
    then have "skip_space utext pos = pos"
      by (subst skip_space.simps) auto
    with "1.prems" show ?thesis
      by simp
  qed
qed

lemma scan_string_le:
  "pos \<le> length utext \<Longrightarrow> scan_string utext quote pos \<le> length utext"
proof (induction utext quote pos rule: scan_string.induct)
  case (1 utext quote pos)
  then show ?case
    by (subst scan_string.simps) (auto split: if_splits)
qed

lemma scan_number_le:
  "numPos run \<le> length utext \<Longrightarrow> numPos (scan_number utext run) \<le> length utext"
proof (induction "length utext - numPos run" arbitrary: run rule: less_induct)
  case less
  have "numPos (scan_number utext r) \<le> length utext"
    if "numPos run < length utext" and "numPos r = numPos run + 1" for r
  proof -
    from that have "length utext - numPos r < length utext - numPos run"
      by arith
    from less(1) [OF this] that show ?thesis
      by simp
  qed
  with less(2) show ?case
    by (subst scan_number.simps) simp
qed

lemma scan_word_le: "pos \<le> length utext \<Longrightarrow> scan_word utext pos \<le> length utext"
proof (induction utext pos rule: scan_word.induct)
  case (1 utext pos)
  then show ?case
    by (subst scan_word.simps) (auto split: if_splits)
qed

text \<open>The branches of one pass of the outer loop.\<close>

lemma scan_token_newline:
  assumes "utext ! start = c16 (CHR 0x0A) \<or> utext ! start = c16 (CHR 0x0D)"
  shows "scan_token utext start =
    (if start + 1 < length utext \<and>
        ((utext ! start = c16 (CHR 0x0D) \<and> utext ! (start + 1) = c16 (CHR 0x0A)) \<or>
         (utext ! start = c16 (CHR 0x0A) \<and> utext ! (start + 1) = c16 (CHR 0x0D)))
     then (start + 2, None) else (start + 1, None))"
  using assms unfolding scan_token_def Let_def by (simp only: if_True)

lemma scan_token_token:
  assumes "\<not> (utext ! start = c16 (CHR 0x0A) \<or> utext ! start = c16 (CHR 0x0D))"
  shows "\<exists>t. snd (scan_token utext start) = Some t \<and> tokStart t = start \<and>
    tokEnd t = fst (scan_token utext start)"
  using assms unfolding scan_token_def Let_def
  by (simp only: if_False) (simp split: if_split)

text \<open>One pass of the outer loop: it ends inside the text, after its start; a pass
  without a token has consumed a line end, a pass with a token has consumed exactly
  the extent of the token.\<close>

lemma scan_token_fst_le:
  assumes "start < length utext"
  shows "fst (scan_token utext start) \<le> length utext"
proof -
  have s: "(if p < length utext \<and> utext ! p = q then p + 1 else p) \<le> length utext"
    if "p = scan_string utext q (start + 1)" for p q
    using that assms scan_string_le [of "start + 1" utext q] by auto
  have n: "numPos (scan_number utext
        \<lparr> numPos = start, hasColon = False, hasDot = False, hasDash = False,
          colonCount = 0, dotCount = 0 \<rparr>) \<le> length utext"
    using assms scan_number_le [of "\<lparr> numPos = start, hasColon = False,
      hasDot = False, hasDash = False, colonCount = 0, dotCount = 0 \<rparr>" utext]
    by simp
  have w: "scan_word utext start \<le> length utext"
    using assms scan_word_le [of start utext] by simp
  show ?thesis
    using s n w assms by (simp add: scan_token_def Let_def)
qed

lemma scan_token_None:
  assumes "snd (scan_token utext start) = None"
    and "start \<le> p" and "p < fst (scan_token utext start)"
  shows "skippable (utext ! p)"
proof -
  have nl: "utext ! start = c16 (CHR 0x0A) \<or> utext ! start = c16 (CHR 0x0D)"
    using assms(1) scan_token_token [of utext start] by fastforce
  note eq = scan_token_newline [OF nl]
  show ?thesis
  proof (cases "p = start")
    case True
    with nl show ?thesis
      by (auto simp: skippable_def)
  next
    case False
    with assms(2,3) have "p = start + 1 \<and>
        (utext ! (start + 1) = c16 (CHR 0x0A) \<or> utext ! (start + 1) = c16 (CHR 0x0D))"
      unfolding eq by (auto split: if_splits)
    then show ?thesis
      by (auto simp: skippable_def)
  qed
qed

lemma scan_token_Some:
  assumes "snd (scan_token utext start) = Some t"
  shows "tokStart t = start \<and> tokEnd t = fst (scan_token utext start)"
proof (cases "utext ! start = c16 (CHR 0x0A) \<or> utext ! start = c16 (CHR 0x0D)")
  case True
  with assms show ?thesis
    by (simp add: scan_token_newline split: if_splits)
next
  case False
  with assms scan_token_token [OF False] show ?thesis
    by auto
qed

text \<open>The outer loop appends to the tokens it is given.\<close>

lemma AnalyzeText_loop_step:
  assumes "pos < length utext" and "skip_space utext pos < length utext"
  shows "AnalyzeText_loop utext pos acc =
    AnalyzeText_loop utext (fst (scan_token utext (skip_space utext pos)))
      (case snd (scan_token utext (skip_space utext pos)) of
         None \<Rightarrow> acc
       | Some token \<Rightarrow> acc @ [token])"
  using assms by (subst AnalyzeText_loop.simps) simp

lemma AnalyzeText_loop_stop:
  assumes "\<not> (pos < length utext \<and> skip_space utext pos < length utext)"
  shows "AnalyzeText_loop utext pos acc = acc"
  using assms by (subst AnalyzeText_loop.simps) auto

lemma AnalyzeText_loop_decreases:
  assumes "pos < length utext" and "skip_space utext pos < length utext"
  shows "length utext - fst (scan_token utext (skip_space utext pos)) < length utext - pos"
  using assms scan_token_advances [of "skip_space utext pos" utext] skip_space_ge [of pos utext]
  by arith

lemma AnalyzeText_loop_append:
  "AnalyzeText_loop utext pos acc = acc @ AnalyzeText_loop utext pos []"
proof (induction "length utext - pos" arbitrary: pos acc rule: less_induct)
  case less
  show ?case
  proof (cases "pos < length utext \<and> skip_space utext pos < length utext")
    case True
    then have p: "pos < length utext" and s: "skip_space utext pos < length utext"
      by simp_all
    note ih = less [OF AnalyzeText_loop_decreases [OF p s]]
    show ?thesis
    proof (cases "snd (scan_token utext (skip_space utext pos))")
      case None
      then show ?thesis
        unfolding AnalyzeText_loop_step [OF p s, of acc] AnalyzeText_loop_step [OF p s, of "[]"]
        using ih [of acc] by simp
    next
      case (Some t)
      then show ?thesis
        unfolding AnalyzeText_loop_step [OF p s, of acc] AnalyzeText_loop_step [OF p s, of "[]"]
        using ih [of "acc @ [t]"] ih [of "[t]"] by simp
    qed
  next
    case False
    then show ?thesis
      by (simp add: AnalyzeText_loop_stop)
  qed
qed

text \<open>A run of skipped characters in front of a tiling extends it.\<close>

lemma tiles_extend:
  assumes "tiles utext pos' ts" and "pos \<le> pos'"
    and "\<And>p. pos \<le> p \<Longrightarrow> p < pos' \<Longrightarrow> skippable (utext ! p)"
  shows "tiles utext pos ts"
proof (cases ts)
  case Nil
  with assms show ?thesis
    by (auto simp: not_less)
next
  case (Cons t rest)
  with assms show ?thesis
    by (auto simp: not_less)
qed

lemma AnalyzeText_loop_tiles:
  "pos \<le> length utext \<Longrightarrow> tiles utext pos (AnalyzeText_loop utext pos [])"
proof (induction "length utext - pos" arbitrary: pos rule: less_induct)
  case less
  show ?case
  proof (cases "pos < length utext \<and> skip_space utext pos < length utext")
    case True
    then have p: "pos < length utext" and s: "skip_space utext pos < length utext"
      by simp_all
    define start where "start = skip_space utext pos"
    define pos' where "pos' = fst (scan_token utext start)"
    have b: "pos \<le> start" "start < pos'" "pos' \<le> length utext"
      using skip_space_ge [of pos utext] scan_token_advances [of start utext]
        scan_token_fst_le [of start utext] s
      by (simp_all add: start_def pos'_def)
    have gap: "skippable (utext ! q)" if "pos \<le> q" and "q < start" for q
      using that skip_space_skipped [of pos q utext] by (simp add: start_def)
    have ih: "tiles utext pos' (AnalyzeText_loop utext pos' [])"
      using less(1) [of pos'] AnalyzeText_loop_decreases [OF p s] b
      by (simp add: start_def pos'_def)
    show ?thesis
    proof (cases "snd (scan_token utext start)")
      case None
      then have "AnalyzeText_loop utext pos [] = AnalyzeText_loop utext pos' []"
        using AnalyzeText_loop_step [OF p s, of "[]"] by (simp add: start_def pos'_def)
      moreover have "skippable (utext ! q)" if "pos \<le> q" and "q < pos'" for q
        using that gap [of q] scan_token_None [OF None, of q] by (cases "q < start")
          (simp_all add: pos'_def)
      ultimately show ?thesis
        using tiles_extend [OF ih, of pos] b by simp
    next
      case (Some t)
      then have "AnalyzeText_loop utext pos [] = t # AnalyzeText_loop utext pos' []"
        using AnalyzeText_loop_step [OF p s, of "[]"]
          AnalyzeText_loop_append [of utext pos' "[t]"]
        by (simp add: start_def pos'_def)
      moreover have "tokStart t = start" and "tokEnd t = pos'"
        using scan_token_Some [OF Some] by (simp_all add: pos'_def)
      ultimately show ?thesis
        using ih b gap by simp
    qed
  next
    case False
    then have e: "AnalyzeText_loop utext pos [] = []"
      by (simp add: AnalyzeText_loop_stop)
    have "skippable (utext ! q)" if "pos \<le> q" and "q < length utext" for q
    proof -
      from that have "pos < length utext"
        by simp
      with False have "length utext \<le> skip_space utext pos"
        by simp
      with that show ?thesis
        using skip_space_skipped [of pos q utext] by simp
    qed
    with less(2) show ?thesis
      by (simp add: e)
  qed
qed

lemma tokenize_loop: "tokenize utext = AnalyzeText_loop utext 0 []"
  by (simp add: tokenize_def AnalyzeText_def)

text \<open>What a tiling says about the tokens and about the positions of the text.\<close>

lemma tiles_bounds:
  "tiles utext pos ts \<Longrightarrow> t \<in> set ts \<Longrightarrow>
   pos \<le> tokStart t \<and> tokStart t < tokEnd t \<and> tokEnd t \<le> length utext"
proof (induction ts arbitrary: pos)
  case Nil
  then show ?case by simp
next
  case (Cons a ts)
  then show ?case
    by (cases "t = a") (auto dest!: Cons.IH)
qed

lemma tiles_none_before:
  "tiles utext pos ts \<Longrightarrow> p < pos \<Longrightarrow> filter (\<lambda>t. covers t p) ts = []"
  by (auto simp: filter_empty_conv covers_def dest: tiles_bounds)

lemma tiles_none_after:
  "tiles utext pos ts \<Longrightarrow> length utext \<le> p \<Longrightarrow> filter (\<lambda>t. covers t p) ts = []"
  by (auto simp: filter_empty_conv covers_def dest: tiles_bounds)

lemma tiles_ordered:
  "tiles utext pos ts \<Longrightarrow> Suc i < length ts \<Longrightarrow>
   tokStart (ts ! i) < tokEnd (ts ! i) \<and> tokEnd (ts ! i) \<le> tokStart (ts ! Suc i)"
proof (induction ts arbitrary: pos i)
  case Nil
  then show ?case by simp
next
  case (Cons t ts)
  show ?case
  proof (cases i)
    case 0
    with Cons.prems have "ts ! 0 \<in> set ts" and "tiles utext (tokEnd t) ts"
      by simp_all
    with Cons.prems 0 show ?thesis
      using tiles_bounds [of utext "tokEnd t" ts "ts ! 0"] by simp
  next
    case (Suc j)
    with Cons.prems Cons.IH [of "tokEnd t" j] show ?thesis
      by simp
  qed
qed

lemma tiles_cover:
  "tiles utext pos ts \<Longrightarrow> pos \<le> p \<Longrightarrow> p < length utext \<Longrightarrow>
   length (filter (\<lambda>t. covers t p) ts) = (if \<exists>t \<in> set ts. covers t p then 1 else 0) \<and>
   ((\<exists>t \<in> set ts. covers t p) \<or> skippable (utext ! p))"
proof (induction ts arbitrary: pos)
  case Nil
  then show ?case by simp
next
  case (Cons t ts)
  then have t: "tiles utext (tokEnd t) ts"
    by simp
  show ?case
  proof (cases "p < tokEnd t")
    case True
    then have "filter (\<lambda>t. covers t p) ts = []"
      using tiles_none_before [OF t] by simp
    then have "\<not> (\<exists>t \<in> set ts. covers t p)"
      by (simp add: filter_empty_conv)
    with True Cons.prems \<open>filter (\<lambda>t. covers t p) ts = []\<close> show ?thesis
      by (cases "tokStart t \<le> p") (auto simp: covers_def)
  next
    case False
    then have "\<not> covers t p"
      by (simp add: covers_def)
    with False Cons.IH [OF t] Cons.prems show ?thesis
      by simp
  qed
qed

lemma tiles_pieces:
  "tiles utext pos ts \<Longrightarrow> concat (pieces utext pos ts) = drop pos utext"
proof (induction ts arbitrary: pos)
  case Nil
  then show ?case by simp
next
  case (Cons t ts)
  then have "concat (pieces utext (tokEnd t) ts) = drop (tokEnd t) utext"
    by simp
  moreover have "take (b - a) (drop a utext) @ drop b utext = drop a utext"
    if "a \<le> b" for a b
    using that by (metis add_diff_inverse_nat append_take_drop_id drop_drop not_less add.commute)
  ultimately show ?case
    using Cons.prems by (simp add: less_imp_le)
qed

text \<open>Claim C7. \<open>AnalyzeText\<close> is a total function: its loops are defined with their
  termination proofs. It appends to the token list of the syntax manager the tokens of
  the text, and these tile the text: from offset 0 on, the text is alternately a run
  of skipped characters (spaces, tabs, line ends) and the extent of the next token, so
  the runs and the extents concatenated in order are the text itself. Each token is not
  empty and ends no later than the next one starts; no position lies in two tokens;
  every position that holds a character other than a space, a tab or a line end lies
  in exactly one token.\<close>

theorem tokenize_tiles:
  "syntax_tokens (AnalyzeText sm) = syntax_tokens sm @ tokenize (syntax_text sm) \<and>
   tiles utext 0 (tokenize utext) \<and>
   concat (pieces utext 0 (tokenize utext)) = utext \<and>
   (\<forall>i. Suc i < length (tokenize utext) \<longrightarrow>
      tokStart (tokenize utext ! i) < tokEnd (tokenize utext ! i) \<and>
      tokEnd (tokenize utext ! i) \<le> tokStart (tokenize utext ! Suc i)) \<and>
   (\<forall>p. length (filter (\<lambda>t. covers t p) (tokenize utext)) \<le> 1) \<and>
   (\<forall>p < length utext. \<not> skippable (utext ! p) \<longrightarrow>
      length (filter (\<lambda>t. covers t p) (tokenize utext)) = 1)"
proof (intro conjI allI impI)
  show "syntax_tokens (AnalyzeText sm) = syntax_tokens sm @ tokenize (syntax_text sm)"
    using AnalyzeText_loop_append [of "syntax_text sm" 0 "syntax_tokens sm"]
    by (simp add: tokenize_loop AnalyzeText_def)
  show t: "tiles utext 0 (tokenize utext)"
    using AnalyzeText_loop_tiles [of 0 utext] by (simp add: tokenize_loop)
  show "concat (pieces utext 0 (tokenize utext)) = utext"
    using tiles_pieces [OF t] by simp
  show "tokStart (tokenize utext ! i) < tokEnd (tokenize utext ! i)"
    and "tokEnd (tokenize utext ! i) \<le> tokStart (tokenize utext ! Suc i)"
    if "Suc i < length (tokenize utext)" for i
    using tiles_ordered [OF t that] by simp_all
  show "length (filter (\<lambda>t. covers t p) (tokenize utext)) \<le> 1" for p
  proof (cases "p < length utext")
    case True
    then show ?thesis
      using tiles_cover [OF t, of p] by simp
  next
    case False
    then show ?thesis
      using tiles_none_after [OF t, of p] by simp
  qed
  show "length (filter (\<lambda>t. covers t p) (tokenize utext)) = 1"
    if "p < length utext" and "\<not> skippable (utext ! p)" for p
    using tiles_cover [OF t, of p] that by (simp split: if_splits)
qed

text \<open>The witness: the text of scenario D of the specification, a bracketed date, the
  word ERROR and a quoted string.\<close>

theorem tokenize_tiles_witness:
  "map (\<lambda>t. (tokType t, tokStart t, tokEnd t))
     (tokenize (u16 (''[2024-01-15] ERROR '' @ [CHR 0x22] @ ''disk full'' @ [CHR 0x22]))) =
   [(TokenType_Bracket, 0, 1), (TokenType_Timestamp, 1, 11), (TokenType_Bracket, 11, 12),
    (TokenType_LevelError, 13, 18), (TokenType_String, 19, 30)] \<and>
   tiles (u16 (''[2024-01-15] ERROR '' @ [CHR 0x22] @ ''disk full'' @ [CHR 0x22])) 0
     (tokenize (u16 (''[2024-01-15] ERROR '' @ [CHR 0x22] @ ''disk full'' @ [CHR 0x22]))) \<and>
   length (filter (\<lambda>t. covers t 13)
     (tokenize (u16 (''[2024-01-15] ERROR '' @ [CHR 0x22] @ ''disk full'' @ [CHR 0x22])))) = 1"
proof -
  define doc where "doc = u16 (''[2024-01-15] ERROR '' @ [CHR 0x22] @ ''disk full'' @ [CHR 0x22])"
  have e: "map (\<lambda>t. (tokType t, tokStart t, tokEnd t)) (tokenize doc) =
    [(TokenType_Bracket, 0, 1), (TokenType_Timestamp, 1, 11), (TokenType_Bracket, 11, 12),
     (TokenType_LevelError, 13, 18), (TokenType_String, 19, 30)]"
    unfolding doc_def by code_simp
  have h: "13 < length doc \<and> \<not> skippable (doc ! 13)"
    unfolding doc_def by code_simp
  from tokenize_tiles [of _ doc] have "tiles doc 0 (tokenize doc)"
    and "\<forall>p < length doc. \<not> skippable (doc ! p) \<longrightarrow>
      length (filter (\<lambda>t. covers t p) (tokenize doc)) = 1"
    by blast+
  with e h show ?thesis
    unfolding doc_def by blast
qed

section \<open>The keywords of the tokenizer\<close>

text \<open>Claim C8 says that a word run gets the level token of every alias in the table of
  the level classifier, among them NOTICE for Info. \<open>ParseLogLevel\<close> maps NOTICE to
  Info, but the chain of comparisons in \<open>AnalyzeText\<close> has no NOTICE: the run NOTICE
  gets the token type Message. Every other alias of the table gets its level token,
  and TRACE gets the level token LevelDebug, not HTTPMethod.\<close>

theorem tokenizer_misses_NOTICE:
  "ParseLogLevel ''NOTICE'' = LogLevel_Info \<and>
   map (\<lambda>t. (tokType t, tokStart t, tokEnd t)) (tokenize (u16 ''NOTICE'')) =
     [(TokenType_Message, 0, 6)] \<and>
   map (\<lambda>t. (tokType t, tokStart t, tokEnd t)) (tokenize (u16 ''info notice'')) =
     [(TokenType_LevelInfo, 0, 4), (TokenType_Message, 5, 11)] \<and>
   map (\<lambda>t. (tokType t, tokStart t, tokEnd t)) (tokenize (u16 ''TRACE'')) =
     [(TokenType_LevelDebug, 0, 5)] \<and>
   map (\<lambda>w. fst (classify_word w))
     [''TRACE'', ''TRC'', ''DEBUG'', ''DBG'', ''DEBU'', ''INFO'', ''INF'', ''INFORMATION'',
      ''WARN'', ''WARNING'', ''WRN'', ''ERROR'', ''ERR'', ''ERRO'', ''FATAL'', ''FTL'',
      ''CRIT'', ''CRITICAL''] =
     [TokenType_LevelDebug, TokenType_LevelDebug, TokenType_LevelDebug, TokenType_LevelDebug,
      TokenType_LevelDebug, TokenType_LevelInfo, TokenType_LevelInfo, TokenType_LevelInfo,
      TokenType_LevelWarning, TokenType_LevelWarning, TokenType_LevelWarning,
      TokenType_LevelError, TokenType_LevelError, TokenType_LevelError, TokenType_LevelError,
      TokenType_LevelError, TokenType_LevelError, TokenType_LevelError] \<and>
   fst (classify_word ''NOTICE'') = TokenType_Message"
  by code_simp

end
